theory Spec2Isabelle
  imports Complex_Main "HOL-Library.Product_Lexorder" "HOL-Library.Multiset"
begin

section \<open>Numbers\<close>

text \<open>
  The engine computes with JavaScript numbers. Ticks, tempi, beats and velocities are
  modelled as exact rationals; pitches, measure numbers and counters, which the engine
  only ever adds, compares and indexes with, are integers. A time-signature denominator
  of 0, for which JavaScript computes with \<open>Infinity\<close>, lies outside the model: the data
  model has positive denominators, and the request schema admits no other.
\<close>

definition js_round :: "rat \<Rightarrow> int" where
  \<comment> \<open>\<open>Math.round\<close>: the nearest integer, a tie going to the larger one.\<close>
  "js_round x = \<lfloor>x + 1 / 2\<rfloor>"

section \<open>Document model\<close>

record tempo_event =
  t_ticks :: rat
  t_bpm :: rat

record time_sig_event =
  s_ticks :: rat
  s_timeSignature :: "rat \<times> rat"

record header =
  ppq :: rat
  tempos :: "tempo_event list"
  timeSignatures :: "time_sig_event list"

record midi_note =
  midi :: int
  ticks :: rat
  durationTicks :: rat
  velocity :: rat

record track =
  track_name :: string
  channel :: int
  instrument_number :: int
  track_notes :: "midi_note list"

record midi_file =
  header :: header
  tracks :: "track list"

record entry =
  entry_midi :: midi_file
  filePath :: "string option"
  dirty :: bool

type_synonym store = "string \<rightharpoonup> entry"

datatype error =
    NotLoaded string
  | NoSuchTrack nat
  | InvalidNoteName string
  | NoteOutOfRange string int
  | GridNotPositive

definition requireLoaded :: "store \<Rightarrow> string \<Rightarrow> error + entry" where
  "requireLoaded loaded alias =
     (case loaded alias of None \<Rightarrow> Inl (NotLoaded alias) | Some e \<Rightarrow> Inr e)"

section \<open>Temporal map\<close>

fun tempo_scan :: "tempo_event list \<Rightarrow> rat \<Rightarrow> rat \<Rightarrow> rat" where
  \<comment> \<open>The \<open>for\<close> loop of \<open>tempoAtTick\<close>: it stops at the first event after the tick.\<close>
  "tempo_scan [] tick b = b"
| "tempo_scan (t # ts) tick b =
     (if t_ticks t \<le> tick then tempo_scan ts tick (t_bpm t) else b)"

definition tempoAtTick :: "midi_file \<Rightarrow> rat \<Rightarrow> rat" where
  "tempoAtTick m tick =
     (case tempos (header m) of
        [] \<Rightarrow> 120
      | t0 # _ \<Rightarrow> tempo_scan (tempos (header m)) tick (t_bpm t0))"

fun sig_scan :: "time_sig_event list \<Rightarrow> rat \<Rightarrow> rat \<times> rat \<Rightarrow> rat \<times> rat" where
  "sig_scan [] tick sg = sg"
| "sig_scan (s # ss) tick sg =
     (if s_ticks s \<le> tick then sig_scan ss tick (s_timeSignature s) else sg)"

definition timeSigAtTick :: "midi_file \<Rightarrow> rat \<Rightarrow> rat \<times> rat" where
  "timeSigAtTick m tick =
     (case timeSignatures (header m) of
        [] \<Rightarrow> (4, 4)
      | s0 # _ \<Rightarrow> sig_scan (timeSignatures (header m)) tick (s_timeSignature s0))"

section \<open>Coordinate converter\<close>

definition ticksPerMeasure :: "midi_file \<Rightarrow> rat \<Rightarrow> rat" where
  "ticksPerMeasure m tick =
     (case timeSigAtTick m tick of (num, den) \<Rightarrow> ppq (header m) * num * (4 / den))"

function mtt_walk :: "midi_file \<Rightarrow> int \<Rightarrow> rat \<Rightarrow> int \<Rightarrow> rat" where
  \<comment> \<open>The \<open>while (currentMeasure < measure)\<close> loop of \<open>measureToTicks\<close>.\<close>
  "mtt_walk m meas currentTick currentMeasure =
     (if currentMeasure < meas
      then mtt_walk m meas (currentTick + ticksPerMeasure m currentTick) (currentMeasure + 1)
      else currentTick)"
  by pat_completeness auto
termination
  by (relation "measure (\<lambda>(m, meas, currentTick, currentMeasure). nat (meas - currentMeasure))")
     auto

declare mtt_walk.simps [simp del]

definition measureToTicks :: "midi_file \<Rightarrow> int \<Rightarrow> rat \<times> rat" where
  \<comment> \<open>The pair is \<open>(start, end)\<close>.\<close>
  "measureToTicks m meas =
     (let currentTick = mtt_walk m meas 0 1;
          tpm = ticksPerMeasure m currentTick
      in (currentTick, currentTick + tpm))"

partial_function (option) tmb_walk :: "midi_file \<Rightarrow> rat \<Rightarrow> rat \<Rightarrow> int \<Rightarrow> (int \<times> rat) option" where
  \<comment> \<open>The \<open>while (true)\<close> loop of \<open>tickToMeasureBeat\<close>; \<open>None\<close> is a walk that never
      returns. The result is \<open>(measure, beat)\<close>.\<close>
  "tmb_walk m tick currentTick meas =
     (let tpm = ticksPerMeasure m currentTick in
      if currentTick + tpm > tick then
        (case timeSigAtTick m currentTick of (num, den) \<Rightarrow>
           let ticksPerBeat = ppq (header m) * (4 / den);
               beatOffset = (tick - currentTick) / ticksPerBeat
           in Some (meas, beatOffset + 1))
      else tmb_walk m tick (currentTick + tpm) (meas + 1))"

declare tmb_walk.simps [code]

definition tickToMeasureBeat :: "midi_file \<Rightarrow> rat \<Rightarrow> (int \<times> rat) option" where
  "tickToMeasureBeat m tick = tmb_walk m tick 0 1"

definition sigs_positive :: "midi_file \<Rightarrow> bool" where
  \<comment> \<open>The data model's invariant: a positive resolution, positive numerators and
      denominators.\<close>
  "sigs_positive m \<longleftrightarrow>
     0 < ppq (header m) \<and>
     list_all (\<lambda>s. 0 < fst (s_timeSignature s) \<and> 0 < snd (s_timeSignature s))
       (timeSignatures (header m))"


section \<open>Pitch name codec\<close>

definition NOTE_NAMES :: "string list" where
  "NOTE_NAMES = [''C'', ''C#'', ''D'', ''D#'', ''E'', ''F'', ''F#'', ''G'', ''G#'', ''A'', ''A#'', ''B'']"

definition is_digit :: "char \<Rightarrow> bool" where
  \<comment> \<open>The regular expression class \<open>\d\<close>.\<close>
  "is_digit c \<longleftrightarrow> c \<in> set ''0123456789''"

definition is_letter :: "char \<Rightarrow> bool" where
  \<comment> \<open>The regular expression class \<open>[A-Ga-g]\<close>.\<close>
  "is_letter c \<longleftrightarrow> c \<in> set ''ABCDEFGabcdefg''"

definition digit_char :: "nat \<Rightarrow> char" where
  "digit_char d = ''0123456789'' ! d"

fun show_nat :: "nat \<Rightarrow> string" where
  "show_nat n = (if n < 10 then [digit_char n] else show_nat (n div 10) @ [digit_char (n mod 10)])"

declare show_nat.simps [simp del]

definition show_int :: "int \<Rightarrow> string" where
  \<comment> \<open>An integer inside a template literal.\<close>
  "show_int i = (if i < 0 then CHR ''-'' # show_nat (nat (- i)) else show_nat (nat i))"

definition js_rem :: "int \<Rightarrow> int \<Rightarrow> int" where
  \<comment> \<open>The operator \<open>%\<close>: the remainder takes the sign of the dividend.\<close>
  "js_rem a b = (if a < 0 then - ((- a) mod \<bar>b\<bar>) else a mod \<bar>b\<bar>)"

definition midiToNoteName :: "int \<Rightarrow> string" where
  \<comment> \<open>A negative index reads \<open>undefined\<close> from the table.\<close>
  "midiToNoteName midiNum =
     (let octave = midiNum div 12 - 1;
          i = js_rem midiNum 12;
          name = (if 0 \<le> i \<and> nat i < length NOTE_NAMES then NOTE_NAMES ! nat i else ''undefined'')
      in name @ show_int octave)"

definition toUpperCase :: "string \<Rightarrow> string" where
  \<comment> \<open>On ASCII text.\<close>
  "toUpperCase s =
     map (\<lambda>c. case map_of (zip ''abcdefghijklmnopqrstuvwxyz'' ''ABCDEFGHIJKLMNOPQRSTUVWXYZ'') c of
                 None \<Rightarrow> c | Some u \<Rightarrow> u) s"

definition match_octave :: "string \<Rightarrow> bool" where
  \<comment> \<open>The group \<open>(-?\d+)\<close> up to the end of the input.\<close>
  "match_octave s =
     (case s of
        [] \<Rightarrow> False
      | c # ds \<Rightarrow> if c = CHR ''-'' then ds \<noteq> [] \<and> list_all is_digit ds
                  else list_all is_digit (c # ds))"

fun first_accidental :: "string list \<Rightarrow> string \<Rightarrow> (string \<times> string) option" where
  \<comment> \<open>Backtracking over the candidates of the group \<open>(#{0,2}|b{0,2})\<close>: the first one that
      is a prefix of the input and lets the rest match the octave.\<close>
  "first_accidental [] rest = None"
| "first_accidental (a # as) rest =
     (if take (length a) rest = a \<and> match_octave (drop (length a) rest)
      then Some (a, drop (length a) rest)
      else first_accidental as rest)"

definition accidental_candidates :: "string list" where
  \<comment> \<open>Each alternative is greedy: longest first.\<close>
  "accidental_candidates = [''##'', ''#'', [], ''bb'', ''b'', []]"

definition match_note_name :: "string \<Rightarrow> (char \<times> string \<times> string) option" where
  \<comment> \<open>\<open>name.match(/^([A-Ga-g])(#{0,2}|b{0,2})(-?\d+)$/)\<close>: letter, accidental, octave.\<close>
  "match_note_name name =
     (case name of
        [] \<Rightarrow> None
      | letter # rest \<Rightarrow>
          if is_letter letter
          then (case first_accidental accidental_candidates rest of
                  None \<Rightarrow> None
                | Some (accidental, octaveStr) \<Rightarrow> Some (letter, accidental, octaveStr))
          else None)"

definition letter_base :: "char \<Rightarrow> int" where
  \<comment> \<open>The table \<open>{ C: 0, D: 2, E: 4, F: 5, G: 7, A: 9, B: 11 }\<close>, read at an upper-case
      letter of \<open>A\<close> to \<open>G\<close>.\<close>
  "letter_base c =
     (case map_of [(CHR ''C'', 0), (CHR ''D'', 2), (CHR ''E'', 4), (CHR ''F'', 5),
                   (CHR ''G'', 7), (CHR ''A'', 9), (CHR ''B'', 11)] c of
        None \<Rightarrow> 0 | Some b \<Rightarrow> b)"

definition digit_val :: "char \<Rightarrow> nat" where
  "digit_val c = (case map_of (zip ''0123456789'' [0 ..< 10]) c of None \<Rightarrow> 0 | Some d \<Rightarrow> d)"

definition dec_val :: "string \<Rightarrow> nat" where
  "dec_val ds = foldl (\<lambda>n c. 10 * n + digit_val c) 0 ds"

definition parseInt :: "string \<Rightarrow> int" where
  \<comment> \<open>\<open>parseInt(s, 10)\<close> on a string that matched \<open>-?\d+\<close>.\<close>
  "parseInt s = (case s of [] \<Rightarrow> 0
                 | c # ds \<Rightarrow> if c = CHR ''-'' then - int (dec_val ds) else int (dec_val (c # ds)))"

definition accidental_sum :: "string \<Rightarrow> int" where
  "accidental_sum accidental = foldl (\<lambda>sum ch. sum + (if ch = CHR ''#'' then 1 else - 1)) 0 accidental"

definition noteNameToMidi :: "string \<Rightarrow> error + int" where
  "noteNameToMidi name =
     (case match_note_name name of
        None \<Rightarrow> Inl (InvalidNoteName name)
      | Some (letter, accidental, octaveStr) \<Rightarrow>
          let base = letter_base (hd (toUpperCase [letter]));
              acc = accidental_sum accidental;
              octave = parseInt octaveStr;
              midiNum = (octave + 1) * 12 + base + acc
          in if midiNum < 0 \<or> midiNum > 127 then Inl (NoteOutOfRange name midiNum)
             else Inr midiNum)"

text \<open>
  The decoder's grammar, for stating what it accepts: a letter, an accidental of at most
  two equal signs, an optional minus sign and a non-empty run of digits.
\<close>

definition spell :: "char \<Rightarrow> string \<Rightarrow> bool \<Rightarrow> string \<Rightarrow> string" where
  "spell letter accidental neg digits = letter # accidental @ (if neg then ''-'' else []) @ digits"

definition well_spelt :: "char \<Rightarrow> string \<Rightarrow> string \<Rightarrow> bool" where
  "well_spelt letter accidental digits \<longleftrightarrow>
     is_letter letter \<and> accidental \<in> set [[], ''#'', ''##'', ''b'', ''bb''] \<and>
     digits \<noteq> [] \<and> list_all is_digit digits"

definition spelt_pitch :: "char \<Rightarrow> string \<Rightarrow> bool \<Rightarrow> string \<Rightarrow> int" where
  "spelt_pitch letter accidental neg digits =
     ((if neg then - int (dec_val digits) else int (dec_val digits)) + 1) * 12
       + letter_base (hd (toUpperCase [letter]))
       + int (length (filter (\<lambda>c. c = CHR ''#'') accidental))
       - int (length (filter (\<lambda>c. c = CHR ''b'') accidental))"

section \<open>Note query and mutation engine\<close>

definition track_at :: "midi_file \<Rightarrow> nat \<Rightarrow> track option" where
  \<comment> \<open>\<open>midi.tracks[trackIndex]\<close>: \<open>undefined\<close> outside the array.\<close>
  "track_at m i = (if i < length (tracks m) then Some (tracks m ! i) else None)"

definition put_notes :: "midi_file \<Rightarrow> nat \<Rightarrow> midi_note list \<Rightarrow> midi_file" where
  \<comment> \<open>The document after the note array of track \<open>i\<close> has been changed in place.\<close>
  "put_notes m i ns = m\<lparr>tracks := (tracks m)[i := (tracks m ! i)\<lparr>track_notes := ns\<rparr>]\<rparr>"

subsection \<open>Search\<close>

record search_opts =
  pitchMin :: "int option"
  pitchMax :: "int option"
  noteName :: "string option"
  trackIndex :: "nat option"
  measureStart :: "int option"
  measureEnd :: "int option"

record found_note =
  f_track :: nat
  f_measure :: int
  f_beat :: rat
  f_name :: string
  f_midi :: int
  f_velocity :: int
  f_durationTicks :: rat

record search_result =
  s_count :: nat
  s_notes :: "found_note list"

fun strip_digits :: "string \<Rightarrow> string" where
  \<comment> \<open>\<open>replace(/\d+/, '')\<close>: the first run of digits is removed.\<close>
  "strip_digits [] = []"
| "strip_digits (c # cs) = (if is_digit c then dropWhile is_digit cs else c # strip_digits cs)"

definition below_pitchMin :: "search_opts \<Rightarrow> midi_note \<Rightarrow> bool" where
  "below_pitchMin opts n = (case pitchMin opts of None \<Rightarrow> False | Some lo \<Rightarrow> midi n < lo)"

definition above_pitchMax :: "search_opts \<Rightarrow> midi_note \<Rightarrow> bool" where
  "above_pitchMax opts n = (case pitchMax opts of None \<Rightarrow> False | Some hi \<Rightarrow> midi n > hi)"

definition other_noteName :: "search_opts \<Rightarrow> midi_note \<Rightarrow> bool" where
  \<comment> \<open>The empty string is falsy: it filters nothing.\<close>
  "other_noteName opts n =
     (case noteName opts of
        None \<Rightarrow> False
      | Some s \<Rightarrow> s \<noteq> [] \<and> strip_digits (midiToNoteName (midi n)) \<noteq> toUpperCase s)"

definition outside_measures :: "search_opts \<Rightarrow> int \<Rightarrow> bool" where
  "outside_measures opts meas =
     ((case measureStart opts of None \<Rightarrow> False | Some ms \<Rightarrow> meas < ms) \<or>
      (case measureEnd opts of None \<Rightarrow> False | Some me \<Rightarrow> meas > me))"

definition found :: "midi_file \<Rightarrow> nat \<Rightarrow> midi_note \<Rightarrow> int \<times> rat \<Rightarrow> found_note" where
  "found m ti n pos =
     \<lparr>f_track = ti, f_measure = fst pos,
      f_beat = of_int (js_round (snd pos * 100)) / 100,
      f_name = midiToNoteName (midi n), f_midi = midi n,
      f_velocity = js_round (velocity n * 127),
      f_durationTicks = durationTicks n\<rparr>"

definition search_note :: "midi_file \<Rightarrow> search_opts \<Rightarrow> nat \<Rightarrow> midi_note \<Rightarrow> found_note option option" where
  \<comment> \<open>One turn of the inner loop: \<open>None\<close> when the measure walk never returns,
      \<open>Some None\<close> on \<open>continue\<close>, \<open>Some (Some r)\<close> when \<open>r\<close> is pushed. The source
      walks once for the measure filter, when one is given, and once more for the pushed
      record; both walks are the same pure call.\<close>
  "search_note m opts ti n =
     (if below_pitchMin opts n then Some None
      else if above_pitchMax opts n then Some None
      else if other_noteName opts n then Some None
      else case tickToMeasureBeat m (ticks n) of
             None \<Rightarrow> None
           | Some pos \<Rightarrow>
               if (measureStart opts \<noteq> None \<or> measureEnd opts \<noteq> None) \<and>
                  outside_measures opts (fst pos)
               then Some None
               else Some (Some (found m ti n pos)))"

fun search_track :: "midi_file \<Rightarrow> search_opts \<Rightarrow> nat \<Rightarrow> midi_note list \<Rightarrow> found_note list \<Rightarrow> found_note list option" where
  "search_track m opts ti [] results = Some results"
| "search_track m opts ti (n # ns) results =
     (case search_note m opts ti n of
        None \<Rightarrow> None
      | Some None \<Rightarrow> search_track m opts ti ns results
      | Some (Some r) \<Rightarrow> search_track m opts ti ns (results @ [r]))"

fun search_tracks :: "midi_file \<Rightarrow> search_opts \<Rightarrow> (nat \<times> track) list \<Rightarrow> found_note list \<Rightarrow> found_note list option" where
  "search_tracks m opts [] results = Some results"
| "search_tracks m opts ((ti, t) # ts) results =
     (case search_track m opts ti (track_notes t) results of
        None \<Rightarrow> None
      | Some results' \<Rightarrow> search_tracks m opts ts results')"

definition tracksToScan :: "midi_file \<Rightarrow> nat option \<Rightarrow> (nat \<times> track) list" where
  \<comment> \<open>Each track with its index in \<open>midi.tracks\<close>.\<close>
  "tracksToScan m ti =
     (case ti of
        None \<Rightarrow> zip [0 ..< length (tracks m)] (tracks m)
      | Some i \<Rightarrow> (case track_at m i of None \<Rightarrow> [] | Some t \<Rightarrow> [(i, t)]))"

definition sort_position :: "found_note \<Rightarrow> int \<times> rat \<times> int" where
  \<comment> \<open>The comparator \<open>a.measure - b.measure || a.beat - b.beat || a.midi - b.midi\<close>
      orders by this triple, lexicographically.\<close>
  "sort_position r = (f_measure r, f_beat r, f_midi r)"

definition searchNotes :: "store \<Rightarrow> string \<Rightarrow> search_opts \<Rightarrow> (error + search_result) option" where
  \<comment> \<open>\<open>None\<close>: the call never returns.\<close>
  "searchNotes loaded alias opts =
     (case requireLoaded loaded alias of
        Inl e \<Rightarrow> Some (Inl e)
      | Inr entry \<Rightarrow>
          let m = entry_midi entry in
          case search_tracks m opts (tracksToScan m (trackIndex opts)) [] of
            None \<Rightarrow> None
          | Some results \<Rightarrow>
              let sorted_results = sort_key sort_position results
              in Some (Inr \<lparr>s_count = length sorted_results, s_notes = take 200 sorted_results\<rparr>))"

definition matches_filters :: "midi_file \<Rightarrow> search_opts \<Rightarrow> midi_note \<Rightarrow> bool" where
  \<comment> \<open>The specification's notion of a match: every supplied filter is satisfied.\<close>
  "matches_filters m opts n \<longleftrightarrow>
     (case pitchMin opts of None \<Rightarrow> True | Some lo \<Rightarrow> lo \<le> midi n) \<and>
     (case pitchMax opts of None \<Rightarrow> True | Some hi \<Rightarrow> midi n \<le> hi) \<and>
     (case noteName opts of None \<Rightarrow> True
      | Some s \<Rightarrow> s = [] \<or> strip_digits (midiToNoteName (midi n)) = toUpperCase s) \<and>
     (case tickToMeasureBeat m (ticks n) of None \<Rightarrow> False
      | Some pos \<Rightarrow>
          (case measureStart opts of None \<Rightarrow> True | Some ms \<Rightarrow> ms \<le> fst pos) \<and>
          (case measureEnd opts of None \<Rightarrow> True | Some me \<Rightarrow> fst pos \<le> me))"

subsection \<open>Adding notes\<close>

record note_input =
  in_measure :: int
  in_beat :: rat
  in_noteName :: string
  in_velocity :: "rat option"
  in_durationBeats :: rat

record added_note =
  a_name :: string
  a_midi :: int
  a_measure :: int
  a_beat :: rat
  a_durationBeats :: rat
  a_velocity :: rat

record add_result =
  add_trackIndex :: nat
  added :: "added_note list"
  totalNotesInTrack :: nat

definition input_ticks :: "midi_file \<Rightarrow> note_input \<Rightarrow> rat \<times> rat" where
  \<comment> \<open>The conversion of measure and beat at the head of the loop body: onset, duration.\<close>
  "input_ticks m n =
     (let measureStart = fst (measureToTicks m (in_measure n));
          den = snd (timeSigAtTick m measureStart);
          ticksPerBeat = ppq (header m) * (4 / den)
      in (measureStart + of_int (js_round ((in_beat n - 1) * ticksPerBeat)),
          of_int (js_round (in_durationBeats n * ticksPerBeat))))"

definition new_note :: "midi_file \<Rightarrow> note_input \<Rightarrow> int \<Rightarrow> midi_note" where
  \<comment> \<open>The object handed to \<open>track.addNote\<close>.\<close>
  "new_note m n midiNum =
     \<lparr>midi = midiNum, ticks = fst (input_ticks m n), durationTicks = snd (input_ticks m n),
      velocity = (case in_velocity n of None \<Rightarrow> 80 | Some v \<Rightarrow> v) / 127\<rparr>"

definition added_entry :: "note_input \<Rightarrow> int \<Rightarrow> added_note" where
  \<comment> \<open>\<open>velocity || 80\<close>: a velocity of 0 is reported as 80 too.\<close>
  "added_entry n midiNum =
     \<lparr>a_name = in_noteName n, a_midi = midiNum, a_measure = in_measure n, a_beat = in_beat n,
      a_durationBeats = in_durationBeats n,
      a_velocity = (case in_velocity n of None \<Rightarrow> 80 | Some v \<Rightarrow> if v = 0 then 80 else v)\<rparr>"

fun add_loop ::
  "(midi_note list \<Rightarrow> midi_note \<Rightarrow> midi_note list) \<Rightarrow> midi_file \<Rightarrow> note_input list \<Rightarrow>
   midi_note list \<Rightarrow> added_note list \<Rightarrow> (error + added_note list) \<times> midi_note list" where
  \<comment> \<open>The \<open>for\<close> loop of \<open>addNotes\<close> over the track's note array, which \<open>track.addNote\<close>
      (a function of the MIDI library, here the parameter \<open>ins\<close>) changes in place: the
      array is returned with the outcome, also when the decoder throws.\<close>
  "add_loop ins m [] tn acc = (Inr acc, tn)"
| "add_loop ins m (n # ns) tn acc =
     (case noteNameToMidi (in_noteName n) of
        Inl e \<Rightarrow> (Inl e, tn)
      | Inr midiNum \<Rightarrow>
          add_loop ins m ns (ins tn (new_note m n midiNum)) (acc @ [added_entry n midiNum]))"

definition addNotes ::
  "(midi_note list \<Rightarrow> midi_note \<Rightarrow> midi_note list) \<Rightarrow> store \<Rightarrow> string \<Rightarrow> nat \<Rightarrow>
   note_input list \<Rightarrow> (error + add_result) \<times> store" where
  "addNotes ins loaded alias ti inputs =
     (case requireLoaded loaded alias of
        Inl e \<Rightarrow> (Inl e, loaded)
      | Inr entry \<Rightarrow>
          let m = entry_midi entry in
          case track_at m ti of
            None \<Rightarrow> (Inl (NoSuchTrack ti), loaded)
          | Some t \<Rightarrow>
              (case add_loop ins m inputs (track_notes t) [] of
                 (Inl e, tn) \<Rightarrow> (Inl e, loaded(alias \<mapsto> entry\<lparr>entry_midi := put_notes m ti tn\<rparr>))
               | (Inr acc, tn) \<Rightarrow>
                   (Inr \<lparr>add_trackIndex = ti, added = acc, totalNotesInTrack = length tn\<rparr>,
                    loaded(alias \<mapsto> entry\<lparr>entry_midi := put_notes m ti tn, dirty := True\<rparr>))))"

definition insert_by_ticks :: "midi_note list \<Rightarrow> midi_note \<Rightarrow> midi_note list" where
  \<comment> \<open>The library's \<open>addNote\<close> on an array ordered by ticks: the note goes after the last
      note that does not start later. Used to run \<open>addNotes\<close> on examples.\<close>
  "insert_by_ticks tn x =
     takeWhile (\<lambda>y. ticks y \<le> ticks x) tn @ x # dropWhile (\<lambda>y. ticks y \<le> ticks x) tn"

subsection \<open>Deleting, transposing, quantizing\<close>

record delete_result =
  del_trackIndex :: nat
  removedCount :: nat
  remainingNotes :: nat

definition delete_keeps :: "rat \<Rightarrow> rat \<Rightarrow> int option \<Rightarrow> int option \<Rightarrow> midi_note \<Rightarrow> bool" where
  \<comment> \<open>The predicate handed to \<open>filter\<close>.\<close>
  "delete_keeps start end_tick lo hi n =
     (if ticks n < start \<or> ticks n \<ge> end_tick then True
      else if (case lo of None \<Rightarrow> False | Some l \<Rightarrow> midi n < l) then True
      else if (case hi of None \<Rightarrow> False | Some h \<Rightarrow> midi n > h) then True
      else False)"

definition deleteNotes ::
  "store \<Rightarrow> string \<Rightarrow> nat \<Rightarrow> int \<Rightarrow> int \<Rightarrow> int option \<Rightarrow> int option \<Rightarrow>
   (error + delete_result) \<times> store" where
  "deleteNotes loaded alias ti ms me lo hi =
     (case requireLoaded loaded alias of
        Inl e \<Rightarrow> (Inl e, loaded)
      | Inr entry \<Rightarrow>
          let m = entry_midi entry in
          case track_at m ti of
            None \<Rightarrow> (Inl (NoSuchTrack ti), loaded)
          | Some t \<Rightarrow>
              let start = fst (measureToTicks m ms);
                  end_tick = snd (measureToTicks m me);
                  before = length (track_notes t);
                  kept = filter (delete_keeps start end_tick lo hi) (track_notes t);
                  removed = before - length kept
              in (Inr \<lparr>del_trackIndex = ti, removedCount = removed, remainingNotes = length kept\<rparr>,
                  loaded(alias \<mapsto> entry\<lparr>entry_midi := put_notes m ti kept, dirty := True\<rparr>)))"

definition window_start :: "midi_file \<Rightarrow> int option \<Rightarrow> rat" where
  "window_start m ms = (case ms of None \<Rightarrow> 0 | Some s \<Rightarrow> fst (measureToTicks m s))"

definition window_end :: "midi_file \<Rightarrow> int option \<Rightarrow> rat option" where
  \<comment> \<open>\<open>None\<close> is \<open>Infinity\<close>.\<close>
  "window_end m me = (case me of None \<Rightarrow> None | Some e \<Rightarrow> Some (snd (measureToTicks m e)))"

definition in_window :: "rat \<Rightarrow> rat option \<Rightarrow> midi_note \<Rightarrow> bool" where
  "in_window start end_tick n \<longleftrightarrow>
     ticks n \<ge> start \<and> (case end_tick of None \<Rightarrow> True | Some e \<Rightarrow> ticks n < e)"

record transpose_result =
  tr_trackIndex :: nat
  tr_semitones :: int
  transposedCount :: nat

definition transpose_note :: "int \<Rightarrow> midi_note \<Rightarrow> midi_note" where
  "transpose_note semitones n = n\<lparr>midi := max 0 (min 127 (midi n + semitones))\<rparr>"

definition transposeNotes ::
  "store \<Rightarrow> string \<Rightarrow> nat \<Rightarrow> int \<Rightarrow> int option \<Rightarrow> int option \<Rightarrow>
   (error + transpose_result) \<times> store" where
  "transposeNotes loaded alias ti semitones ms me =
     (case requireLoaded loaded alias of
        Inl e \<Rightarrow> (Inl e, loaded)
      | Inr entry \<Rightarrow>
          let m = entry_midi entry in
          case track_at m ti of
            None \<Rightarrow> (Inl (NoSuchTrack ti), loaded)
          | Some t \<Rightarrow>
              let start = window_start m ms;
                  end_tick = window_end m me;
                  ns = map (\<lambda>n. if in_window start end_tick n then transpose_note semitones n else n)
                         (track_notes t);
                  c = length (filter (in_window start end_tick) (track_notes t))
              in (Inr \<lparr>tr_trackIndex = ti, tr_semitones = semitones, transposedCount = c\<rparr>,
                  loaded(alias \<mapsto> entry\<lparr>entry_midi := put_notes m ti ns, dirty := True\<rparr>)))"

record quantize_result =
  q_trackIndex :: nat
  q_gridBeats :: rat
  quantizedCount :: nat

definition snap :: "int \<Rightarrow> rat \<Rightarrow> rat" where
  \<comment> \<open>\<open>Math.round(note.ticks / gridTicks) * gridTicks\<close>.\<close>
  "snap gridTicks t = of_int (js_round (t / of_int gridTicks) * gridTicks)"

definition quantize_note :: "int \<Rightarrow> midi_note \<Rightarrow> midi_note" where
  "quantize_note gridTicks n = n\<lparr>ticks := snap gridTicks (ticks n)\<rparr>"

definition quantizeNotes ::
  "store \<Rightarrow> string \<Rightarrow> nat \<Rightarrow> rat \<Rightarrow> int option \<Rightarrow> int option \<Rightarrow>
   (error + quantize_result) \<times> store" where
  "quantizeNotes loaded alias ti gridBeats ms me =
     (case requireLoaded loaded alias of
        Inl e \<Rightarrow> (Inl e, loaded)
      | Inr entry \<Rightarrow>
          let m = entry_midi entry in
          case track_at m ti of
            None \<Rightarrow> (Inl (NoSuchTrack ti), loaded)
          | Some t \<Rightarrow>
              let gridTicks = js_round (ppq (header m) * gridBeats) in
              if gridTicks \<le> 0 then (Inl GridNotPositive, loaded)
              else
                let start = window_start m ms;
                    end_tick = window_end m me;
                    ns = map (\<lambda>n. if in_window start end_tick n then quantize_note gridTicks n else n)
                           (track_notes t);
                    c = length (filter (in_window start end_tick) (track_notes t))
                in (Inr \<lparr>q_trackIndex = ti, q_gridBeats = gridBeats, quantizedCount = c\<rparr>,
                    loaded(alias \<mapsto> entry\<lparr>entry_midi := put_notes m ti ns, dirty := True\<rparr>)))"

text \<open>What a deletion is specified to select: an onset inside the tick interval and a
  pitch inside the optional range.\<close>

definition delete_selected :: "rat \<Rightarrow> rat \<Rightarrow> int option \<Rightarrow> int option \<Rightarrow> midi_note \<Rightarrow> bool" where
  "delete_selected start end_tick lo hi n \<longleftrightarrow>
     start \<le> ticks n \<and> ticks n < end_tick \<and>
     (case lo of None \<Rightarrow> True | Some l \<Rightarrow> l \<le> midi n) \<and>
     (case hi of None \<Rightarrow> True | Some h \<Rightarrow> midi n \<le> h)"


definition all_matches :: "midi_file \<Rightarrow> search_opts \<Rightarrow> found_note list" where
  "all_matches m opts =
     concat (map (\<lambda>(ti, t).
         map (\<lambda>n. found m ti n (the (tickToMeasureBeat m (ticks n))))
           (filter (matches_filters m opts) (track_notes t)))
       (tracksToScan m (trackIndex opts)))"

section \<open>Example documents\<close>

definition late_tempo :: midi_file where
  \<comment> \<open>A single tempo event, placed after tick 0.\<close>
  "late_tempo =
     \<lparr>header = \<lparr>ppq = 480, tempos = [\<lparr>t_ticks = 480, t_bpm = 90\<rparr>], timeSignatures = []\<rparr>,
      tracks = []\<rparr>"

definition two_tempi :: midi_file where
  "two_tempi =
     \<lparr>header = \<lparr>ppq = 480,
                 tempos = [\<lparr>t_ticks = 0, t_bpm = 120\<rparr>, \<lparr>t_ticks = 960, t_bpm = 90\<rparr>],
                 timeSignatures = []\<rparr>,
      tracks = []\<rparr>"



definition song_notes :: "midi_note list" where
  \<comment> \<open>In 4/4 at 480 ticks per quarter: C4 on the downbeat, E4 late in measure 1 and
      held into measure 2, G4 and C#-1 in measure 2, C9 at the start of measure 3.\<close>
  "song_notes =
     [\<lparr>midi = 60, ticks = 0, durationTicks = 480, velocity = 80 / 127\<rparr>,
      \<lparr>midi = 64, ticks = 1800, durationTicks = 960, velocity = 80 / 127\<rparr>,
      \<lparr>midi = 67, ticks = 1920, durationTicks = 480, velocity = 80 / 127\<rparr>,
      \<lparr>midi = 1, ticks = 2500, durationTicks = 240, velocity = 90 / 127\<rparr>,
      \<lparr>midi = 120, ticks = 3840, durationTicks = 480, velocity = 1\<rparr>]"

definition song_track :: track where
  "song_track = \<lparr>track_name = ''Piano'', channel = 0, instrument_number = 0, track_notes = song_notes\<rparr>"

definition song_midi :: midi_file where
  "song_midi =
     \<lparr>header = \<lparr>ppq = 480, tempos = [\<lparr>t_ticks = 0, t_bpm = 120\<rparr>],
                 timeSignatures = [\<lparr>s_ticks = 0, s_timeSignature = (4, 4)\<rparr>]\<rparr>,
      tracks = [song_track]\<rparr>"

definition song_entry :: entry where
  "song_entry = \<lparr>entry_midi = song_midi, filePath = None, dirty = False\<rparr>"

definition song :: store where
  "song = [''song'' \<mapsto> song_entry]"

definition c4_then_h2 :: "note_input list" where
  "c4_then_h2 =
     [\<lparr>in_measure = 1, in_beat = 1, in_noteName = ''C4'', in_velocity = None, in_durationBeats = 1\<rparr>,
      \<lparr>in_measure = 1, in_beat = 2, in_noteName = ''H2'', in_velocity = None, in_durationBeats = 1\<rparr>]"

definition no_filter :: search_opts where
  "no_filter = \<lparr>pitchMin = None, pitchMax = None, noteName = None, trackIndex = None,
                 measureStart = None, measureEnd = None\<rparr>"

definition unordered_notes :: "midi_note list" where
  "unordered_notes =
     [\<lparr>midi = 67, ticks = 1920, durationTicks = 480, velocity = 80 / 127\<rparr>,
      \<lparr>midi = 64, ticks = 0, durationTicks = 480, velocity = 80 / 127\<rparr>,
      \<lparr>midi = 1, ticks = 480, durationTicks = 480, velocity = 80 / 127\<rparr>,
      \<lparr>midi = 61, ticks = 0, durationTicks = 480, velocity = 80 / 127\<rparr>]"

definition chords_midi :: midi_file where
  "chords_midi =
     \<lparr>header = \<lparr>ppq = 480, tempos = [], timeSignatures = []\<rparr>,
      tracks = [\<lparr>track_name = ''Lead'', channel = 0, instrument_number = 0,
                 track_notes = unordered_notes\<rparr>]\<rparr>"

definition chords :: store where
  "chords = [''chords'' \<mapsto> \<lparr>entry_midi = chords_midi, filePath = None, dirty = False\<rparr>]"

definition c_sharp_filter :: search_opts where
  "c_sharp_filter = no_filter\<lparr>noteName := Some ''c#''\<rparr>"



definition measure_lengths :: "midi_file \<Rightarrow> rat set" where
  \<comment> \<open>Every value \<open>ticksPerMeasure\<close> can take on a document (proof device).\<close>
  "measure_lengths m =
     (\<lambda>(num, den). ppq (header m) * num * (4 / den)) `
       insert (4, 4) (s_timeSignature ` set (timeSignatures (header m)))"

section \<open>The tempo lookup\<close>

lemma tempo_scan_filter:
  "sorted_wrt (<) (map t_ticks ts) \<Longrightarrow>
   tempo_scan ts T b =
     (if filter (\<lambda>t. t_ticks t \<le> T) ts = [] then b
      else t_bpm (last (filter (\<lambda>t. t_ticks t \<le> T) ts)))"
proof (induction ts arbitrary: b)
  case Nil
  then show ?case by simp
next
  case (Cons t ts)
  show ?case
  proof (cases "t_ticks t \<le> T")
    case True
    with Cons show ?thesis by simp
  next
    case False
    with Cons.prems have "\<forall>u \<in> set ts. \<not> t_ticks u \<le> T" by auto
    then have "filter (\<lambda>t. t_ticks t \<le> T) ts = []" by (simp add: filter_empty_conv)
    with False show ?thesis by simp
  qed
qed

text \<open>
  C2 (as amended). On a tempo list with strictly increasing ticks, \<open>tempoAtTick\<close> returns
  the bpm of the last event whose tick is at most \<open>T\<close>; when there is no such event it returns
  120 if the list is empty, and the bpm of the first event if the list is not empty. The
  function is pure, so repeated queries agree.
\<close>

theorem tempoAtTick_last_event:
  assumes "sorted_wrt (<) (map t_ticks (tempos (header m)))"
  shows "tempoAtTick m T =
     (if filter (\<lambda>t. t_ticks t \<le> T) (tempos (header m)) \<noteq> []
      then t_bpm (last (filter (\<lambda>t. t_ticks t \<le> T) (tempos (header m))))
      else if tempos (header m) = [] then 120
      else t_bpm (hd (tempos (header m))))"
  using tempo_scan_filter [OF assms, of T] 
  by (auto simp: tempoAtTick_def split: list.splits)

theorem tempoAtTick_last_event_witness:
  "sorted_wrt (<) (map t_ticks (tempos (header two_tempi))) \<and> tempoAtTick two_tempi 1000 = 90"
proof -
  have h: "sorted_wrt (<) (map t_ticks (tempos (header two_tempi)))"
    by (simp add: two_tempi_def)
  from tempoAtTick_last_event [OF h, of 1000] h show ?thesis
    by (simp add: two_tempi_def)
qed

text \<open>
  C2 as stated fails: the list \<open>[(480, 90 bpm)]\<close> has strictly increasing ticks and no event
  at or before tick 0, and the lookup at tick 0 gives 90, not 120.
\<close>

theorem tempoAtTick_default_counterexample:
  "tempos (header late_tempo) = [\<lparr>t_ticks = 480, t_bpm = 90\<rparr>] \<and> (0::rat) < 480 \<and>
   tempoAtTick late_tempo 0 = 90 \<and> tempoAtTick late_tempo 0 \<noteq> 120"
  by (simp add: late_tempo_def tempoAtTick_def)

section \<open>The measure walk\<close>

lemma sig_scan_mem: "sig_scan ss T sg = sg \<or> sig_scan ss T sg \<in> s_timeSignature ` set ss"
proof (induction ss arbitrary: sg)
  case Nil
  then show ?case by simp
next
  case (Cons s ss)
  from Cons [of "s_timeSignature s"] show ?case by auto
qed

lemma timeSigAtTick_cases:
  "timeSigAtTick m T = (4, 4) \<or> timeSigAtTick m T \<in> s_timeSignature ` set (timeSignatures (header m))"
  using sig_scan_mem [of "timeSignatures (header m)" T "s_timeSignature (hd (timeSignatures (header m)))"]
  by (auto simp: timeSigAtTick_def split: list.splits)

lemma timeSigAtTick_positive:
  assumes "sigs_positive m"
  shows "0 < fst (timeSigAtTick m T) \<and> 0 < snd (timeSigAtTick m T)"
  using timeSigAtTick_cases [of m T] assms
  by (auto simp: sigs_positive_def list_all_iff)

lemma measure_length_positive:
  "0 < p \<Longrightarrow> 0 < a \<Longrightarrow> 0 < b \<Longrightarrow> 0 < p * a * (4 / b :: rat)"
  by (simp add: zero_less_mult_iff zero_less_divide_iff)

lemma ticksPerMeasure_mem: "ticksPerMeasure m T \<in> measure_lengths m"
proof -
  have "ticksPerMeasure m T = (\<lambda>(num, den). ppq (header m) * num * (4 / den)) (timeSigAtTick m T)"
    by (simp only: ticksPerMeasure_def)
  moreover have "timeSigAtTick m T \<in> insert (4, 4) (s_timeSignature ` set (timeSignatures (header m)))"
    using timeSigAtTick_cases [of m T] by blast
  ultimately show ?thesis unfolding measure_lengths_def by (rule image_eqI)
qed

lemma measure_lengths_positive:
  assumes "sigs_positive m" and "x \<in> measure_lengths m"
  shows "0 < x"
proof -
  from assms(2) obtain sg where sg: "x = (\<lambda>(num, den). ppq (header m) * num * (4 / den)) sg"
    "sg \<in> insert (4, 4) (s_timeSignature ` set (timeSignatures (header m)))"
    unfolding measure_lengths_def by (rule imageE)
  obtain a b where sgab: "sg = (a, b)" by (cases sg)
  from sg(1) have x: "x = ppq (header m) * a * (4 / b)" by (simp only: sgab prod.case)
  from sg(2) have ab: "(a, b) = (4, 4) \<or> (a, b) \<in> s_timeSignature ` set (timeSignatures (header m))"
    by (simp only: sgab insert_iff)
  have "0 < a \<and> 0 < b"
  proof (cases "(a, b) = (4, 4)")
    case True
    then show ?thesis by simp
  next
    case False
    with ab obtain s where s: "s \<in> set (timeSignatures (header m))" "s_timeSignature s = (a, b)"
      by auto
    from assms(1) s(1) have "0 < fst (s_timeSignature s) \<and> 0 < snd (s_timeSignature s)"
      unfolding sigs_positive_def list_all_iff by blast
    then show ?thesis by (simp add: s(2))
  qed
  moreover from assms(1) have "0 < ppq (header m)" by (simp add: sigs_positive_def)
  ultimately show ?thesis unfolding x by (simp only: measure_length_positive)
qed


lemma ticksPerMeasure_lower_bound:
  assumes "sigs_positive m"
  shows "\<exists>d>0. \<forall>T. d \<le> ticksPerMeasure m T"
proof -
  have fin: "finite (measure_lengths m)" by (simp add: measure_lengths_def)
  have ne: "measure_lengths m \<noteq> {}" by (simp add: measure_lengths_def)
  have "Min (measure_lengths m) \<in> measure_lengths m" using fin ne by (rule Min_in)
  then have "0 < Min (measure_lengths m)" by (rule measure_lengths_positive [OF assms])
  moreover have "\<forall>T. Min (measure_lengths m) \<le> ticksPerMeasure m T"
    using fin ticksPerMeasure_mem by (simp add: Min_le)
  ultimately show ?thesis by blast
qed

lemma tmb_walk_returns_within:
  assumes d: "0 < d" "\<forall>T. d \<le> ticksPerMeasure m T"
  shows "tick - c < of_nat n * d \<Longrightarrow> \<exists>r. tmb_walk m tick c k = Some r"
proof (induction n arbitrary: c k)
  case 0
  then have "tick - c < 0" by simp
  moreover have "0 < ticksPerMeasure m c" using d(1) d(2) [rule_format, of c] by linarith
  ultimately have "tick < c + ticksPerMeasure m c" by linarith
  then show ?case by (subst tmb_walk.simps) (simp add: Let_def split: prod.splits)
next
  case (Suc n)
  show ?case
  proof (cases "tick < c + ticksPerMeasure m c")
    case True
    then show ?thesis by (subst tmb_walk.simps) (simp add: Let_def split: prod.splits)
  next
    case False
    have "d \<le> ticksPerMeasure m c" using d by blast
    with Suc.prems have "tick - (c + ticksPerMeasure m c) < of_nat n * d"
      by (simp add: algebra_simps)
    from Suc.IH [OF this, of "k + 1"] False show ?thesis
      by (subst tmb_walk.simps) (simp add: Let_def)
  qed
qed






lemma tmb_walk_returns:
  assumes "sigs_positive m"
  shows "\<exists>r. tmb_walk m tick c k = Some r"
proof -
  obtain d where d: "0 < d" "\<forall>T. d \<le> ticksPerMeasure m T"
    using ticksPerMeasure_lower_bound [OF assms] by blast
  obtain n where "tick - c < of_nat n * d"
    using ex_less_of_nat_mult [OF d(1)] by blast
  from tmb_walk_returns_within [OF d this] show ?thesis .
qed






section \<open>The pitch name codec\<close>

lemma is_digit_not_special:
  "is_digit c \<Longrightarrow> c \<noteq> CHR ''#'' \<and> c \<noteq> CHR ''b'' \<and> c \<noteq> CHR ''-''"
  by (auto simp: is_digit_def)

lemma match_octave_signed:
  "ds \<noteq> [] \<Longrightarrow> list_all is_digit ds \<Longrightarrow> match_octave ((if neg then ''-'' else []) @ ds)"
  by (cases ds) (auto simp: match_octave_def dest: is_digit_not_special)

lemma match_octave_head:
  "match_octave s \<Longrightarrow> s \<noteq> [] \<and> hd s \<noteq> CHR ''#'' \<and> hd s \<noteq> CHR ''b''"
  by (cases s) (auto simp: match_octave_def dest: is_digit_not_special split: if_splits)

lemma match_octave_parts:
  "match_octave s \<Longrightarrow> \<exists>neg ds. s = (if neg then ''-'' else []) @ ds \<and> ds \<noteq> [] \<and> list_all is_digit ds"
proof (cases s)
  case Nil
  assume "match_octave s"
  with Nil show ?thesis by (simp add: match_octave_def)
next
  case (Cons c cs)
  assume m: "match_octave s"
  show ?thesis
  proof (cases "c = CHR ''-''")
    case True
    with m Cons have "s = (if True then ''-'' else []) @ cs \<and> cs \<noteq> [] \<and> list_all is_digit cs"
      by (simp add: match_octave_def)
    then show ?thesis by blast
  next
    case False
    with m Cons have "s = (if False then ''-'' else []) @ s \<and> s \<noteq> [] \<and> list_all is_digit s"
      by (simp add: match_octave_def)
    then show ?thesis by blast
  qed
qed

lemma first_accidental_sound:
  "first_accidental as rest = Some (a, ostr) \<Longrightarrow> a \<in> set as \<and> rest = a @ ostr \<and> match_octave ostr"
proof (induction as)
  case Nil
  then show ?case by simp
next
  case (Cons x xs)
  show ?case
  proof (cases "take (length x) rest = x \<and> match_octave (drop (length x) rest)")
    case True
    with Cons.prems have "a = x" "ostr = drop (length x) rest" by auto
    with True show ?thesis by (metis append_take_drop_id list.set_intros(1))
  next
    case False
    with Cons show ?thesis by auto
  qed
qed

lemma first_accidental_complete:
  assumes "a \<in> set [[], ''#'', ''##'', ''b'', ''bb'']" "match_octave ostr"
  shows "first_accidental accidental_candidates (a @ ostr) = Some (a, ostr)"
proof -
  from assms(2) obtain c cs where o: "ostr = c # cs" "c \<noteq> CHR ''#''" "c \<noteq> CHR ''b''"
    using match_octave_head [of ostr] by (cases ostr) auto
  have no: "\<And>x. \<not> match_octave (CHR ''b'' # x)" "\<And>x. \<not> match_octave (CHR ''#'' # x)"
    using match_octave_head by fastforce+
  from assms(1) consider "a = []" | "a = ''#''" | "a = ''##''" | "a = ''b''" | "a = ''bb''" by auto
  then show ?thesis
    using assms(2) o no by cases (simp_all add: accidental_candidates_def)
qed

lemma match_note_name_sound:
  assumes "match_note_name name = Some (l, a, ostr)"
  shows "\<exists>neg ds. well_spelt l a ds \<and> name = spell l a neg ds \<and> ostr = (if neg then ''-'' else []) @ ds"
proof -
  from assms obtain rest where r: "name = l # rest" "is_letter l"
    "first_accidental accidental_candidates rest = Some (a, ostr)"
    by (auto simp: match_note_name_def split: list.splits if_splits option.splits)
  from first_accidental_sound [OF r(3)]
  have a: "a \<in> set accidental_candidates" "rest = a @ ostr" "match_octave ostr" by simp_all
  from match_octave_parts [OF a(3)] obtain neg ds where
    d: "ostr = (if neg then ''-'' else []) @ ds" "ds \<noteq> []" "list_all is_digit ds" by blast
  from a(1) have "a \<in> set [[], ''#'', ''##'', ''b'', ''bb'']"
    by (auto simp: accidental_candidates_def)
  with r a d have "well_spelt l a ds \<and> name = spell l a neg ds \<and> ostr = (if neg then ''-'' else []) @ ds"
    by (simp add: well_spelt_def spell_def)
  then show ?thesis by blast
qed

lemma match_note_name_complete:
  assumes "well_spelt l a ds"
  shows "match_note_name (spell l a neg ds) = Some (l, a, (if neg then ''-'' else []) @ ds)"
proof -
  from assms have m: "match_octave ((if neg then ''-'' else []) @ ds)"
    by (simp add: well_spelt_def match_octave_signed)
  from assms have "a \<in> set [[], ''#'', ''##'', ''b'', ''bb'']" by (simp add: well_spelt_def)
  from first_accidental_complete [OF this m] assms show ?thesis
    by (simp add: match_note_name_def spell_def well_spelt_def)
qed

lemma parseInt_signed:
  assumes "ds \<noteq> []" "list_all is_digit ds"
  shows "parseInt ((if neg then ''-'' else []) @ ds) = (if neg then - int (dec_val ds) else int (dec_val ds))"
proof (cases ds)
  case Nil
  with assms show ?thesis by simp
next
  case (Cons c cs)
  with assms have "c \<noteq> CHR ''-''" using is_digit_not_special [of c] by simp
  with Cons show ?thesis by (simp add: parseInt_def)
qed

lemma accidental_sum_count:
  assumes "a \<in> set [[], ''#'', ''##'', ''b'', ''bb'']"
  shows "accidental_sum a = int (length (filter (\<lambda>c. c = CHR ''#'') a)) - int (length (filter (\<lambda>c. c = CHR ''b'') a))"
  using assms by (auto simp: accidental_sum_def)

text \<open>
  C4 (as amended). The decoder accepts exactly the names made of a letter \<open>A\<close> to \<open>G\<close> in
  either case, zero, one or two \<open>#\<close> or else zero, one or two \<open>b\<close>, an optional minus sign
  and one or more decimal digits; it returns \<open>(octave + 1) * 12 + base + accidentals\<close> when
  that lies in 0 to 127, fails with the out-of-range error otherwise, and fails with the
  invalid-name error on every other string. \<open>C4\<close>, \<open>F#3\<close>, \<open>Bb5\<close> decode to 60, 54, 82,
  \<open>H2\<close> fails, and 60 encodes as \<open>C4\<close>.
\<close>

theorem noteNameToMidi_grammar:
  "(well_spelt l a ds \<longrightarrow>
      noteNameToMidi (spell l a neg ds) =
        (if 0 \<le> spelt_pitch l a neg ds \<and> spelt_pitch l a neg ds \<le> 127
         then Inr (spelt_pitch l a neg ds)
         else Inl (NoteOutOfRange (spell l a neg ds) (spelt_pitch l a neg ds)))) \<and>
   ((\<nexists>l a neg ds. well_spelt l a ds \<and> name = spell l a neg ds) \<longrightarrow>
      noteNameToMidi name = Inl (InvalidNoteName name)) \<and>
   noteNameToMidi ''C4'' = Inr 60 \<and> noteNameToMidi ''F#3'' = Inr 54 \<and>
   noteNameToMidi ''Bb5'' = Inr 82 \<and> noteNameToMidi ''H2'' = Inl (InvalidNoteName ''H2'') \<and>
   midiToNoteName 60 = ''C4''"
proof (intro conjI impI)
  assume w: "well_spelt l a ds"
  then have p: "parseInt ((if neg then ''-'' else []) @ ds) = (if neg then - int (dec_val ds) else int (dec_val ds))"
    by (simp add: well_spelt_def parseInt_signed)
  from w have s: "accidental_sum a = int (length (filter (\<lambda>c. c = CHR ''#'') a)) - int (length (filter (\<lambda>c. c = CHR ''b'') a))"
    by (simp add: well_spelt_def accidental_sum_count)
  show "noteNameToMidi (spell l a neg ds) =
        (if 0 \<le> spelt_pitch l a neg ds \<and> spelt_pitch l a neg ds \<le> 127
         then Inr (spelt_pitch l a neg ds)
         else Inl (NoteOutOfRange (spell l a neg ds) (spelt_pitch l a neg ds)))"
    unfolding noteNameToMidi_def match_note_name_complete [OF w]
    by (simp only: option.case prod.case Let_def p s spelt_pitch_def) auto
next
  assume n: "\<nexists>l a neg ds. well_spelt l a ds \<and> name = spell l a neg ds"
  have "match_note_name name = None"
  proof (cases "match_note_name name")
    case None
    then show ?thesis .
  next
    case (Some t)
    obtain l a ostr where "t = (l, a, ostr)" by (cases t)
    with Some match_note_name_sound [of name l a ostr] n show ?thesis by blast
  qed
  then show "noteNameToMidi name = Inl (InvalidNoteName name)"
    by (simp add: noteNameToMidi_def)
next
  show "noteNameToMidi ''C4'' = Inr 60" by code_simp
  show "noteNameToMidi ''F#3'' = Inr 54" by code_simp
  show "noteNameToMidi ''Bb5'' = Inr 82" by code_simp
  show "noteNameToMidi ''H2'' = Inl (InvalidNoteName ''H2'')" by code_simp
  show "midiToNoteName 60 = ''C4''" by code_simp
qed

theorem noteNameToMidi_grammar_witness:
  "well_spelt (CHR ''F'') ''#'' ''3'' \<and> spell (CHR ''F'') ''#'' False ''3'' = ''F#3'' \<and>
   spelt_pitch (CHR ''F'') ''#'' False ''3'' = 54 \<and> noteNameToMidi ''F#3'' = Inr 54 \<and>
   (\<nexists>l a neg ds. well_spelt l a ds \<and> ''H2'' = spell l a neg ds) \<and>
   noteNameToMidi ''H2'' = Inl (InvalidNoteName ''H2'')"
proof -
  have w: "well_spelt (CHR ''F'') ''#'' ''3''" by (simp add: well_spelt_def is_letter_def is_digit_def)
  have sp: "spell (CHR ''F'') ''#'' False ''3'' = ''F#3''" by (simp add: spell_def)
  have pv: "spelt_pitch (CHR ''F'') ''#'' False ''3'' = 54" by code_simp
  have h: "\<nexists>l a neg ds. well_spelt l a ds \<and> ''H2'' = spell l a neg ds"
    by (auto simp: well_spelt_def spell_def is_letter_def)
  from noteNameToMidi_grammar [of "CHR ''F''" "''#''" "''3''" False "''H2''"] w sp pv h
  show ?thesis by simp
qed

text \<open>
  C4 as stated fails: three sharps are "zero or more" accidentals, and the claimed pitch
  of \<open>C###4\<close> is 63, but the decoder rejects the name.
\<close>

theorem noteNameToMidi_three_sharps_counterexample:
  "is_letter (CHR ''C'') \<and> list_all is_digit ''4'' \<and>
   (parseInt ''4'' + 1) * 12 + letter_base (CHR ''C'') + 3 = 63 \<and>
   noteNameToMidi ''C###4'' = Inl (InvalidNoteName ''C###4'')"
  by code_simp


section \<open>Editing operations\<close>

lemma track_at_Some: "track_at m ti = Some t \<longleftrightarrow> ti < length (tracks m) \<and> t = tracks m ! ti"
  by (auto simp: track_at_def)

lemma put_notes_header [simp]: "header (put_notes m ti ns) = header m"
  by (simp add: put_notes_def)

lemma put_notes_length [simp]: "length (tracks (put_notes m ti ns)) = length (tracks m)"
  by (simp add: put_notes_def)

lemma put_notes_same [simp]:
  "ti < length (tracks m) \<Longrightarrow> track_notes (tracks (put_notes m ti ns) ! ti) = ns"
  by (simp add: put_notes_def)

lemma put_notes_track_at:
  "ti < length (tracks m) \<Longrightarrow>
   track_at (put_notes m ti ns) ti = Some ((tracks m ! ti)\<lparr>track_notes := ns\<rparr>)"
  by (simp add: track_at_def put_notes_def)

lemma put_notes_twice [simp]:
  "put_notes (put_notes m ti ns) ti ns' = put_notes m ti ns'"
  by (cases "ti < length (tracks m)") (simp_all add: put_notes_def list_update_beyond)

lemma timeSigAtTick_put_notes [simp]: "timeSigAtTick (put_notes m ti ns) T = timeSigAtTick m T"
  by (simp add: timeSigAtTick_def split: list.splits)

lemma ticksPerMeasure_put_notes [simp]: "ticksPerMeasure (put_notes m ti ns) T = ticksPerMeasure m T"
  by (simp add: ticksPerMeasure_def)

lemma mtt_walk_put_notes [simp]: "mtt_walk (put_notes m ti ns) n c k = mtt_walk m n c k"
proof (induction m n c k rule: mtt_walk.induct)
  case (1 m n c k)
  have l: "mtt_walk (put_notes m ti ns) n c k =
      (if k < n then mtt_walk (put_notes m ti ns) n (c + ticksPerMeasure m c) (k + 1) else c)"
    by (subst mtt_walk.simps) simp
  have r: "mtt_walk m n c k = (if k < n then mtt_walk m n (c + ticksPerMeasure m c) (k + 1) else c)"
    by (subst mtt_walk.simps) simp
  show ?case
  proof (cases "k < n")
    case True
    from "1.IH" [OF True] show ?thesis by (simp only: l r True if_True)
  next
    case False
    then show ?thesis by (simp only: l r if_False)
  qed
qed

lemma measureToTicks_put_notes [simp]: "measureToTicks (put_notes m ti ns) n = measureToTicks m n"
  by (simp add: measureToTicks_def)

lemma window_put_notes [simp]:
  "window_start (put_notes m ti ns) ms = window_start m ms"
  "window_end (put_notes m ti ns) me = window_end m me"
  by (simp_all add: window_start_def window_end_def split: option.splits)

lemma delete_keeps_selected: "delete_keeps s e lo hi n \<longleftrightarrow> \<not> delete_selected s e lo hi n"
  by (auto simp: delete_keeps_def delete_selected_def split: option.splits)

lemma length_filter_split: "length (filter P xs) + length (filter (\<lambda>x. \<not> P x) xs) = length xs"
  by (induction xs) auto

lemma deleteNotes_result:
  assumes "loaded alias = Some entry" and "track_at (entry_midi entry) ti = Some t"
  shows "deleteNotes loaded alias ti ms me lo hi =
     (Inr \<lparr>del_trackIndex = ti,
           removedCount = length (track_notes t) -
             length (filter (delete_keeps (fst (measureToTicks (entry_midi entry) ms))
                       (snd (measureToTicks (entry_midi entry) me)) lo hi) (track_notes t)),
           remainingNotes =
             length (filter (delete_keeps (fst (measureToTicks (entry_midi entry) ms))
                       (snd (measureToTicks (entry_midi entry) me)) lo hi) (track_notes t))\<rparr>,
      loaded(alias \<mapsto> entry\<lparr>entry_midi := put_notes (entry_midi entry) ti
             (filter (delete_keeps (fst (measureToTicks (entry_midi entry) ms))
                       (snd (measureToTicks (entry_midi entry) me)) lo hi) (track_notes t)),
           dirty := True\<rparr>))"
  using assms by (simp add: deleteNotes_def requireLoaded_def Let_def)

text \<open>
  C8. On an existing track, \<open>deleteNotes\<close> succeeds and keeps exactly the notes that are
  not selected, in their order and unchanged: those whose onset lies outside
  \<open>[start, end)\<close> (so also a note that starts earlier and sustains into the interval) or
  whose pitch lies outside the optional range. The two counts add up to the old note
  count, and with no onset in the interval nothing is removed.
\<close>

theorem deleteNotes_removes_onsets:
  assumes "loaded alias = Some entry" and "track_at (entry_midi entry) ti = Some t"
    and "start = fst (measureToTicks (entry_midi entry) ms)"
    and "end_tick = snd (measureToTicks (entry_midi entry) me)"
    and "deleteNotes loaded alias ti ms me lo hi = (out, loaded')"
  shows "\<exists>res entry'. out = Inr res \<and> loaded' alias = Some entry' \<and>
      track_notes (tracks (entry_midi entry') ! ti) =
        filter (\<lambda>n. \<not> delete_selected start end_tick lo hi n) (track_notes t) \<and>
      removedCount res = length (filter (delete_selected start end_tick lo hi) (track_notes t)) \<and>
      remainingNotes res = length (track_notes (tracks (entry_midi entry') ! ti)) \<and>
      removedCount res + remainingNotes res = length (track_notes t) \<and>
      (filter (\<lambda>n. start \<le> ticks n \<and> ticks n < end_tick) (track_notes t) = [] \<longrightarrow>
         removedCount res = 0 \<and> track_notes (tracks (entry_midi entry') ! ti) = track_notes t)"
proof -
  define kept where "kept = filter (delete_keeps start end_tick lo hi) (track_notes t)"
  define res where "res = \<lparr>del_trackIndex = ti, removedCount = length (track_notes t) - length kept,
               remainingNotes = length kept\<rparr>"
  define entry' where "entry' = entry\<lparr>entry_midi := put_notes (entry_midi entry) ti kept, dirty := True\<rparr>"
  from assms(2) have ti: "ti < length (tracks (entry_midi entry))" by (simp add: track_at_Some)
  have keeps: "delete_keeps start end_tick lo hi = (\<lambda>n. \<not> delete_selected start end_tick lo hi n)"
    by (rule ext) (simp add: delete_keeps_selected)
  have k: "kept = filter (\<lambda>n. \<not> delete_selected start end_tick lo hi n) (track_notes t)"
    by (simp only: kept_def keeps)
  from deleteNotes_result [of loaded "alias" entry ti t ms me lo hi, OF assms(1,2)] assms(5)
  have out: "out = Inr res" and st: "loaded' = loaded(alias \<mapsto> entry')"
    by (simp_all only: assms(3,4) [symmetric] kept_def [symmetric] res_def entry'_def prod.inject)
  have split: "length (filter (delete_selected start end_tick lo hi) (track_notes t)) + length kept
      = length (track_notes t)"
    unfolding k by (rule length_filter_split)
  have empty: "filter (\<lambda>n. start \<le> ticks n \<and> ticks n < end_tick) (track_notes t) = [] \<Longrightarrow>
      kept = track_notes t"
    unfolding k by (auto simp: filter_empty_conv filter_id_conv delete_selected_def)
  have n': "track_notes (tracks (entry_midi entry') ! ti) = kept"
    using ti by (simp add: entry'_def)
  have c1: "removedCount res = length (filter (delete_selected start end_tick lo hi) (track_notes t))"
    using split by (simp add: res_def)
  have c2: "remainingNotes res = length kept" by (simp add: res_def)
  have "out = Inr res \<and> loaded' alias = Some entry' \<and>
      track_notes (tracks (entry_midi entry') ! ti) =
        filter (\<lambda>n. \<not> delete_selected start end_tick lo hi n) (track_notes t) \<and>
      removedCount res = length (filter (delete_selected start end_tick lo hi) (track_notes t)) \<and>
      remainingNotes res = length (track_notes (tracks (entry_midi entry') ! ti)) \<and>
      removedCount res + remainingNotes res = length (track_notes t) \<and>
      (filter (\<lambda>n. start \<le> ticks n \<and> ticks n < end_tick) (track_notes t) = [] \<longrightarrow>
         removedCount res = 0 \<and> track_notes (tracks (entry_midi entry') ! ti) = track_notes t)"
  proof (intro conjI impI)
    show "out = Inr res" by (rule out)
    show "loaded' alias = Some entry'" by (simp add: st)
    show "track_notes (tracks (entry_midi entry') ! ti) =
        filter (\<lambda>n. \<not> delete_selected start end_tick lo hi n) (track_notes t)"
      by (simp only: n' k)
    show "removedCount res = length (filter (delete_selected start end_tick lo hi) (track_notes t))"
      by (rule c1)
    show "remainingNotes res = length (track_notes (tracks (entry_midi entry') ! ti))"
      by (simp only: n' c2)
    show "removedCount res + remainingNotes res = length (track_notes t)"
      using split by (simp only: c1 c2)
  next
    assume e: "filter (\<lambda>n. start \<le> ticks n \<and> ticks n < end_tick) (track_notes t) = []"
    from empty [OF e] show "removedCount res = 0" by (simp add: res_def)
    from empty [OF e] show "track_notes (tracks (entry_midi entry') ! ti) = track_notes t"
      by (simp only: n')
  qed
  then show ?thesis by blast
qed

lemma in_window_midi_update [simp]: "in_window s e (n\<lparr>midi := p\<rparr>) = in_window s e n"
  by (simp add: in_window_def split: option.splits)

lemma clamp_round_trip:
  "0 \<le> p \<Longrightarrow> p \<le> 127 \<Longrightarrow> 0 \<le> p + k \<Longrightarrow> p + k \<le> 127 \<Longrightarrow>
   max 0 (min 127 (max 0 (min 127 (p + k)) + - k)) = (p::int)"
  by simp

lemma transposeNotes_result:
  assumes "loaded alias = Some entry" and "track_at (entry_midi entry) ti = Some t"
  shows "transposeNotes loaded alias ti k ms me =
     (Inr \<lparr>tr_trackIndex = ti, tr_semitones = k,
           transposedCount = length (filter (in_window (window_start (entry_midi entry) ms)
                                   (window_end (entry_midi entry) me)) (track_notes t))\<rparr>,
      loaded(alias \<mapsto> entry\<lparr>entry_midi := put_notes (entry_midi entry) ti
             (map (\<lambda>n. if in_window (window_start (entry_midi entry) ms)
                              (window_end (entry_midi entry) me) n
                        then transpose_note k n else n) (track_notes t)),
           dirty := True\<rparr>))"
  using assms by (simp add: transposeNotes_def requireLoaded_def Let_def)

text \<open>
  C9. \<open>transposeNotes\<close> succeeds on an existing track and sets the pitch of each note in
  the window to the clamped sum; transposing by \<open>k\<close> and then by \<open>- k\<close> over the same
  window gives back every note whose pitch stayed within 0 to 127 in both passes
  (\<open>k = 12\<close> is the claim's instance).
\<close>

theorem transposeNotes_round_trip:
  assumes "loaded alias = Some entry" and "track_at (entry_midi entry) ti = Some t"
    and "start = window_start (entry_midi entry) ms"
    and "end_tick = window_end (entry_midi entry) me"
    and "transposeNotes loaded alias ti k ms me = (out1, loaded1)"
    and "transposeNotes loaded1 alias ti (- k) ms me = (out2, loaded2)"
  shows "\<exists>r1 r2 e1 e2. out1 = Inr r1 \<and> out2 = Inr r2 \<and>
      loaded1 alias = Some e1 \<and> loaded2 alias = Some e2 \<and>
      track_notes (tracks (entry_midi e1) ! ti) =
        map (\<lambda>n. if in_window start end_tick n
                  then n\<lparr>midi := max 0 (min 127 (midi n + k))\<rparr> else n) (track_notes t) \<and>
      length (track_notes (tracks (entry_midi e2) ! ti)) = length (track_notes t) \<and>
      (\<forall>j < length (track_notes t).
          0 \<le> midi (track_notes t ! j) \<and> midi (track_notes t ! j) \<le> 127 \<and>
          0 \<le> midi (track_notes t ! j) + k \<and> midi (track_notes t ! j) + k \<le> 127 \<longrightarrow>
          track_notes (tracks (entry_midi e2) ! ti) ! j = track_notes t ! j)"
proof -
  define m where "m = entry_midi entry"
  define f where "f = (\<lambda>s n. if in_window start end_tick n then transpose_note s n else n)"
  define ns1 where "ns1 = map (f k) (track_notes t)"
  define ns2 where "ns2 = map (f (- k)) ns1"
  define e1 where "e1 = entry\<lparr>entry_midi := put_notes m ti ns1, dirty := True\<rparr>"
  define e2 where "e2 = e1\<lparr>entry_midi := put_notes (entry_midi e1) ti ns2, dirty := True\<rparr>"
  from assms(2) have ti: "ti < length (tracks m)" and t: "t = tracks m ! ti"
    by (simp_all add: track_at_Some m_def)
  from transposeNotes_result [of loaded "alias" entry ti t k ms me, OF assms(1,2)] assms(5)
  have o1: "\<exists>r1. out1 = Inr r1" and l1: "loaded1 = loaded(alias \<mapsto> e1)"
    by (simp_all add: assms(3,4) e1_def ns1_def f_def m_def)
  have a1: "loaded1 alias = Some e1" by (simp add: l1)
  have t1: "track_at (entry_midi e1) ti = Some (t\<lparr>track_notes := ns1\<rparr>)"
    using ti by (simp add: e1_def put_notes_track_at t)
  have w1: "window_start (entry_midi e1) ms = start" "window_end (entry_midi e1) me = end_tick"
    by (simp_all add: e1_def assms(3,4) m_def)
  from transposeNotes_result [of loaded1 "alias" e1 ti "t\<lparr>track_notes := ns1\<rparr>" "- k" ms me, OF a1 t1]
    assms(6)
  have o2: "\<exists>r2. out2 = Inr r2" and l2: "loaded2 = loaded1(alias \<mapsto> e2)"
    by (simp_all add: w1 e2_def ns2_def f_def)
  have a2: "loaded2 alias = Some e2" by (simp add: l2)
  have n1: "track_notes (tracks (entry_midi e1) ! ti) = ns1"
    using ti by (simp add: e1_def)
  have n2: "track_notes (tracks (entry_midi e2) ! ti) = ns2"
    using ti by (simp add: e2_def e1_def)
  have c1: "ns1 = map (\<lambda>n. if in_window start end_tick n
                  then n\<lparr>midi := max 0 (min 127 (midi n + k))\<rparr> else n) (track_notes t)"
    by (simp add: ns1_def f_def transpose_note_def)
  have len: "length ns2 = length (track_notes t)" by (simp add: ns2_def ns1_def)
  have restored: "ns2 ! j = track_notes t ! j"
    if j: "j < length (track_notes t)"
      and r: "0 \<le> midi (track_notes t ! j) \<and> midi (track_notes t ! j) \<le> 127 \<and>
          0 \<le> midi (track_notes t ! j) + k \<and> midi (track_notes t ! j) + k \<le> 127" for j
  proof -
    have "ns2 ! j = f (- k) (f k (track_notes t ! j))"
      using j by (simp add: ns2_def ns1_def)
    also have "\<dots> = track_notes t ! j"
      using r by (simp add: f_def transpose_note_def)
    finally show ?thesis .
  qed
  from o1 o2 obtain r1 r2 where "out1 = Inr r1" "out2 = Inr r2" by blast
  with a1 a2 c1 len restored have "out1 = Inr r1 \<and> out2 = Inr r2 \<and>
      loaded1 alias = Some e1 \<and> loaded2 alias = Some e2 \<and>
      track_notes (tracks (entry_midi e1) ! ti) =
        map (\<lambda>n. if in_window start end_tick n
                  then n\<lparr>midi := max 0 (min 127 (midi n + k))\<rparr> else n) (track_notes t) \<and>
      length (track_notes (tracks (entry_midi e2) ! ti)) = length (track_notes t) \<and>
      (\<forall>j < length (track_notes t).
          0 \<le> midi (track_notes t ! j) \<and> midi (track_notes t ! j) \<le> 127 \<and>
          0 \<le> midi (track_notes t ! j) + k \<and> midi (track_notes t ! j) + k \<le> 127 \<longrightarrow>
          track_notes (tracks (entry_midi e2) ! ti) ! j = track_notes t ! j)"
    by (simp only: n1 n2) blast
  then show ?thesis by blast
qed

lemma js_round_of_int [simp]: "js_round (of_int k) = k"
  by (simp add: js_round_def) linarith

lemma js_round_bounds: "x - 1 / 2 < of_int (js_round x) \<and> of_int (js_round x) \<le> x + 1 / 2"
  unfolding js_round_def by linarith

lemma snap_multiple: "0 < g \<Longrightarrow> snap g (of_int (k * g)) = of_int (k * g)"
  by (simp add: snap_def)

lemma snap_is_multiple: "snap g x = of_int (js_round (x / of_int g) * g)"
  by (simp add: snap_def)

lemma snap_idem: "0 < g \<Longrightarrow> snap g (snap g x) = snap g x"
  using snap_multiple [of g "js_round (x / of_int g)"] by (simp only: snap_is_multiple)

lemma snap_nearest:
  assumes "0 < g"
  shows "x - of_int g / 2 < snap g x \<and> snap g x \<le> x + of_int g / 2"
proof -
  define r :: rat where "r = of_int (js_round (x / of_int g))"
  have g: "(0::rat) < of_int g" using assms by simp
  have b: "x / of_int g - 1 / 2 < r" "r \<le> x / of_int g + 1 / 2"
    using js_round_bounds [of "x / of_int g"] by (simp_all add: r_def)
  have 1: "(x / of_int g - 1 / 2) * of_int g < r * of_int g"
    using b(1) g by (rule mult_strict_right_mono)
  have 2: "r * of_int g \<le> (x / of_int g + 1 / 2) * of_int g"
    using b(2) g by (intro mult_right_mono) simp_all
  have e1: "(x / of_int g - 1 / 2) * of_int g = x - of_int g / 2"
    using g by (simp add: left_diff_distrib)
  have e2: "(x / of_int g + 1 / 2) * of_int g = x + of_int g / 2"
    using g by (simp add: distrib_right)
  have s: "snap g x = r * of_int g" by (simp add: snap_def r_def)
  from 1 2 show ?thesis unfolding e1 e2 s by simp
qed

lemma quantizeNotes_result:
  assumes "loaded alias = Some entry" and "track_at (entry_midi entry) ti = Some t"
    and "0 < js_round (ppq (header (entry_midi entry)) * gridBeats)"
  shows "quantizeNotes loaded alias ti gridBeats ms me =
     (Inr \<lparr>q_trackIndex = ti, q_gridBeats = gridBeats,
           quantizedCount = length (filter (in_window (window_start (entry_midi entry) ms)
                                   (window_end (entry_midi entry) me)) (track_notes t))\<rparr>,
      loaded(alias \<mapsto> entry\<lparr>entry_midi := put_notes (entry_midi entry) ti
             (map (\<lambda>n. if in_window (window_start (entry_midi entry) ms)
                              (window_end (entry_midi entry) me) n
                        then quantize_note (js_round (ppq (header (entry_midi entry)) * gridBeats)) n
                        else n) (track_notes t)),
           dirty := True\<rparr>))"
  using assms by (simp add: quantizeNotes_def requireLoaded_def Let_def)

lemma quantizeNotes_grid:
  assumes "loaded alias = Some entry" and "track_at (entry_midi entry) ti = Some t"
    and "quantizeNotes loaded alias ti gridBeats ms me = (Inr r, loaded1)"
  shows "0 < js_round (ppq (header (entry_midi entry)) * gridBeats)"
  using assms by (auto simp: quantizeNotes_def requireLoaded_def Let_def split: if_splits)

text \<open>
  C6. When \<open>quantizeNotes\<close> succeeds, the grid is positive, every note in the window has
  its onset moved to \<open>round(ticks / gridTicks) * gridTicks\<close>, and a second call with the
  same arguments succeeds and leaves the store as it is. The snapped tick is a multiple of
  the grid within half a grid step of the onset, a tie going to the larger tick, and a
  multiple of the grid is a fixed point.
\<close>

theorem quantizeNotes_idempotent:
  assumes "loaded alias = Some entry" and "track_at (entry_midi entry) ti = Some t"
    and "start = window_start (entry_midi entry) ms"
    and "end_tick = window_end (entry_midi entry) me"
    and "gridTicks = js_round (ppq (header (entry_midi entry)) * gridBeats)"
    and "quantizeNotes loaded alias ti gridBeats ms me = (Inr r1, loaded1)"
  shows "\<exists>r2 e1. quantizeNotes loaded1 alias ti gridBeats ms me = (Inr r2, loaded1) \<and>
      loaded1 alias = Some e1 \<and> 0 < gridTicks \<and>
      track_notes (tracks (entry_midi e1) ! ti) =
        map (\<lambda>n. if in_window start end_tick n
                  then n\<lparr>ticks := of_int (js_round (ticks n / of_int gridTicks) * gridTicks)\<rparr>
                  else n) (track_notes t) \<and>
      (\<forall>x. x - of_int gridTicks / 2 < snap gridTicks x \<and> snap gridTicks x \<le> x + of_int gridTicks / 2) \<and>
      (\<forall>k. snap gridTicks (of_int (k * gridTicks)) = of_int (k * gridTicks))"
proof -
  define m where "m = entry_midi entry"
  define f where "f = (\<lambda>n. if in_window start end_tick n then quantize_note gridTicks n else n)"
  define ns1 where "ns1 = map f (track_notes t)"
  define e1 where "e1 = entry\<lparr>entry_midi := put_notes m ti ns1, dirty := True\<rparr>"
  from assms(2) have ti: "ti < length (tracks m)" and t: "t = tracks m ! ti"
    by (simp_all add: track_at_Some m_def)
  have g: "0 < gridTicks"
    unfolding assms(5) by (rule quantizeNotes_grid [OF assms(1,2,6)])
  then have g': "0 < js_round (ppq (header (entry_midi entry)) * gridBeats)" by (simp only: assms(5))
  have l1: "loaded1 = loaded(alias \<mapsto> e1)"
    using quantizeNotes_result [of loaded "alias" entry ti t gridBeats ms me, OF assms(1,2) g'] assms(6)
    unfolding e1_def ns1_def f_def m_def assms(3,4,5) by simp
  have a1: "loaded1 alias = Some e1" by (simp add: l1)
  have t1: "track_at (entry_midi e1) ti = Some (t\<lparr>track_notes := ns1\<rparr>)"
    using ti by (simp add: e1_def put_notes_track_at t)
  have w1: "window_start (entry_midi e1) ms = start" "window_end (entry_midi e1) me = end_tick"
    "js_round (ppq (header (entry_midi e1)) * gridBeats) = gridTicks"
    by (simp_all add: e1_def assms(3,4,5) m_def)
  have ff: "f (f n) = f n" for n
    by (simp add: f_def quantize_note_def snap_idem [OF g])
  have again: "map f ns1 = ns1" by (simp add: ns1_def ff)
  have same: "e1\<lparr>entry_midi := put_notes (entry_midi e1) ti ns1, dirty := True\<rparr> = e1"
    by (simp add: e1_def)
  have g1: "0 < js_round (ppq (header (entry_midi e1)) * gridBeats)" using g by (simp only: w1)
  from quantizeNotes_result [of loaded1 "alias" e1 ti "t\<lparr>track_notes := ns1\<rparr>" gridBeats ms me, OF a1 t1 g1]
  have "\<exists>r2. quantizeNotes loaded1 alias ti gridBeats ms me = (Inr r2, loaded1(alias \<mapsto> e1))"
    by (simp add: w1 f_def [symmetric] again same cong: if_cong)
  moreover have "loaded1(alias \<mapsto> e1) = loaded1" using a1 by (simp add: fun_upd_idem)
  ultimately obtain r2 where r2: "quantizeNotes loaded1 alias ti gridBeats ms me = (Inr r2, loaded1)"
    by auto
  have n1: "track_notes (tracks (entry_midi e1) ! ti) =
        map (\<lambda>n. if in_window start end_tick n
                  then n\<lparr>ticks := of_int (js_round (ticks n / of_int gridTicks) * gridTicks)\<rparr>
                  else n) (track_notes t)"
    using ti by (simp add: e1_def ns1_def f_def quantize_note_def snap_def)
  have "quantizeNotes loaded1 alias ti gridBeats ms me = (Inr r2, loaded1) \<and>
      loaded1 alias = Some e1 \<and> 0 < gridTicks \<and>
      track_notes (tracks (entry_midi e1) ! ti) =
        map (\<lambda>n. if in_window start end_tick n
                  then n\<lparr>ticks := of_int (js_round (ticks n / of_int gridTicks) * gridTicks)\<rparr>
                  else n) (track_notes t) \<and>
      (\<forall>x. x - of_int gridTicks / 2 < snap gridTicks x \<and> snap gridTicks x \<le> x + of_int gridTicks / 2) \<and>
      (\<forall>k. snap gridTicks (of_int (k * gridTicks)) = of_int (k * gridTicks))"
    using r2 a1 g n1 snap_nearest [OF g] snap_multiple [OF g] by blast
  then show ?thesis by blast
qed

lemma song_loaded: "song ''song'' = Some song_entry"
  by (simp add: song_def)

lemma song_track_at: "track_at (entry_midi song_entry) 0 = Some song_track"
  by (simp add: song_entry_def song_midi_def track_at_def)

lemma song_measures:
  "measureToTicks song_midi 1 = (0, 1920)"
  "measureToTicks song_midi 2 = (1920, 3840)"
  "measureToTicks song_midi 4 = (5760, 7680)"
  by code_simp+

theorem deleteNotes_removes_onsets_witness:
  "(\<exists>res st entry'. deleteNotes song ''song'' 0 2 2 None None = (Inr res, st) \<and> st ''song'' = Some entry' \<and>
      removedCount res = 2 \<and> remainingNotes res = 3 \<and>
      map ticks (track_notes (tracks (entry_midi entry') ! 0)) = [0, 1800, 3840]) \<and>
   (\<exists>res st entry'. deleteNotes song ''song'' 0 4 4 None None = (Inr res, st) \<and> st ''song'' = Some entry' \<and>
      removedCount res = 0 \<and> track_notes (tracks (entry_midi entry') ! 0) = song_notes)"
proof (intro conjI)
  obtain out st where c: "deleteNotes song ''song'' 0 2 2 None None = (out, st)"
    by (cases "deleteNotes song ''song'' 0 2 2 None None")
  from deleteNotes_removes_onsets [of song "''song''", OF song_loaded song_track_at refl refl c]
  obtain res entry' where r: "out = Inr res" "st ''song'' = Some entry'"
    "track_notes (tracks (entry_midi entry') ! 0) =
        filter (\<lambda>n. \<not> delete_selected (fst (measureToTicks (entry_midi song_entry) 2))
                       (snd (measureToTicks (entry_midi song_entry) 2)) None None n)
          (track_notes song_track)"
    "removedCount res =
        length (filter (delete_selected (fst (measureToTicks (entry_midi song_entry) 2))
                       (snd (measureToTicks (entry_midi song_entry) 2)) None None)
          (track_notes song_track))"
    "removedCount res + remainingNotes res = length (track_notes song_track)"
    by blast
  have m: "entry_midi song_entry = song_midi" by (simp add: song_entry_def)
  have n: "track_notes song_track = song_notes" by (simp add: song_track_def)
  from r(3) have k: "map ticks (track_notes (tracks (entry_midi entry') ! 0)) = [0, 1800, 3840]"
    by (simp add: m n song_measures delete_selected_def song_notes_def)
  from r(4) have c1: "removedCount res = 2"
    by (simp add: m n song_measures delete_selected_def song_notes_def)
  with r(5) have c2: "remainingNotes res = 3" by (simp add: n song_notes_def)
  from c r(1,2) k c1 c2
  have f: "deleteNotes song ''song'' 0 2 2 None None = (Inr res, st) \<and> st ''song'' = Some entry' \<and>
      removedCount res = 2 \<and> remainingNotes res = 3 \<and>
      map ticks (track_notes (tracks (entry_midi entry') ! 0)) = [0, 1800, 3840]"
    by simp
  show "\<exists>res st entry'. deleteNotes song ''song'' 0 2 2 None None = (Inr res, st) \<and> st ''song'' = Some entry' \<and>
      removedCount res = 2 \<and> remainingNotes res = 3 \<and>
      map ticks (track_notes (tracks (entry_midi entry') ! 0)) = [0, 1800, 3840]"
    by (rule exI [of _ res], rule exI [of _ st], rule exI [of _ entry'], rule f)
next
  obtain out st where c: "deleteNotes song ''song'' 0 4 4 None None = (out, st)"
    by (cases "deleteNotes song ''song'' 0 4 4 None None")
  have m: "entry_midi song_entry = song_midi" by (simp add: song_entry_def)
  have n: "track_notes song_track = song_notes" by (simp add: song_track_def)
  have e: "filter (\<lambda>n. fst (measureToTicks (entry_midi song_entry) 4) \<le> ticks n \<and>
                       ticks n < snd (measureToTicks (entry_midi song_entry) 4))
             (track_notes song_track) = []"
    by (simp add: m n song_measures song_notes_def)
  from deleteNotes_removes_onsets [of song "''song''", OF song_loaded song_track_at refl refl c] e
  obtain res entry' where r: "out = Inr res" "st ''song'' = Some entry'"
    "removedCount res = 0" "track_notes (tracks (entry_midi entry') ! 0) = track_notes song_track"
    by blast
  from c r n
  have f: "deleteNotes song ''song'' 0 4 4 None None = (Inr res, st) \<and> st ''song'' = Some entry' \<and>
      removedCount res = 0 \<and> track_notes (tracks (entry_midi entry') ! 0) = song_notes"
    by simp
  show "\<exists>res st entry'. deleteNotes song ''song'' 0 4 4 None None = (Inr res, st) \<and> st ''song'' = Some entry' \<and>
      removedCount res = 0 \<and> track_notes (tracks (entry_midi entry') ! 0) = song_notes"
    by (rule exI [of _ res], rule exI [of _ st], rule exI [of _ entry'], rule f)
qed

theorem transposeNotes_round_trip_witness:
  "\<exists>out1 st1 out2 st2 e2.
      transposeNotes song ''song'' 0 12 None None = (out1, st1) \<and>
      transposeNotes st1 ''song'' 0 (- 12) None None = (out2, st2) \<and>
      st2 ''song'' = Some e2 \<and>
      (1::nat) < length song_notes \<and> midi (song_notes ! 1) = 64 \<and>
      track_notes (tracks (entry_midi e2) ! 0) ! 1 = song_notes ! 1"
proof -
  obtain out1 st1 where c1: "transposeNotes song ''song'' 0 12 None None = (out1, st1)"
    by (cases "transposeNotes song ''song'' 0 12 None None")
  obtain out2 st2 where c2: "transposeNotes st1 ''song'' 0 (- 12) None None = (out2, st2)"
    by (cases "transposeNotes st1 ''song'' 0 (- 12) None None")
  have n: "track_notes song_track = song_notes" by (simp add: song_track_def)
  from transposeNotes_round_trip [of song "''song''", OF song_loaded song_track_at refl refl c1 c2]
  obtain e2 where r: "st2 ''song'' = Some e2"
    "\<forall>j < length (track_notes song_track).
          0 \<le> midi (track_notes song_track ! j) \<and> midi (track_notes song_track ! j) \<le> 127 \<and>
          0 \<le> midi (track_notes song_track ! j) + 12 \<and> midi (track_notes song_track ! j) + 12 \<le> 127 \<longrightarrow>
          track_notes (tracks (entry_midi e2) ! 0) ! j = track_notes song_track ! j"
    by blast
  have l: "(1::nat) < length song_notes" "midi (song_notes ! 1) = 64"
    by (simp_all add: song_notes_def)
  from r(2) [unfolded n, rule_format, of 1] l
  have k: "track_notes (tracks (entry_midi e2) ! 0) ! 1 = song_notes ! 1" by simp
  from c1 c2 r(1) l k
  have f: "transposeNotes song ''song'' 0 12 None None = (out1, st1) \<and>
      transposeNotes st1 ''song'' 0 (- 12) None None = (out2, st2) \<and>
      st2 ''song'' = Some e2 \<and>
      (1::nat) < length song_notes \<and> midi (song_notes ! 1) = 64 \<and>
      track_notes (tracks (entry_midi e2) ! 0) ! 1 = song_notes ! 1"
    by simp
  show ?thesis
    by (rule exI [of _ out1], rule exI [of _ st1], rule exI [of _ out2], rule exI [of _ st2],
        rule exI [of _ e2], rule f)
qed

lemma js_round_numeral [simp]: "js_round (numeral n) = numeral n"
  using js_round_of_int [of "numeral n"] by simp

lemma js_round_zero [simp]: "js_round 0 = 0"
  using js_round_of_int [of 0] by simp

lemma song_grid: "js_round (ppq (header (entry_midi song_entry)) * 1) = 480"
  by (simp add: song_entry_def song_midi_def)

theorem quantizeNotes_idempotent_witness:
  "\<exists>r1 st1 r2.
      quantizeNotes song ''song'' 0 1 (Some 1) (Some 1) = (Inr r1, st1) \<and>
      quantizeNotes st1 ''song'' 0 1 (Some 1) (Some 1) = (Inr r2, st1) \<and>
      map ticks (track_notes (tracks (entry_midi (the (st1 ''song''))) ! 0)) =
        [0, 1920, 1920, 2500, 3840]"
proof -
  have g: "0 < js_round (ppq (header (entry_midi song_entry)) * 1)" by (simp only: song_grid)
  obtain r1 st1 where c1: "quantizeNotes song ''song'' 0 1 (Some 1) (Some 1) = (Inr r1, st1)"
    using quantizeNotes_result [of song "''song''", OF song_loaded song_track_at g] by blast
  have m: "entry_midi song_entry = song_midi" by (simp add: song_entry_def)
  have n: "track_notes song_track = song_notes" by (simp add: song_track_def)
  have w: "window_start song_midi (Some 1) = 0" "window_end song_midi (Some 1) = Some 1920"
    by (simp_all add: window_start_def window_end_def song_measures)
  have s: "js_round (15 / 4) = 4" by code_simp
  from quantizeNotes_idempotent [of song "''song''", OF song_loaded song_track_at refl refl refl c1]
  obtain r2 e1 where r: "quantizeNotes st1 ''song'' 0 1 (Some 1) (Some 1) = (Inr r2, st1)"
    "st1 ''song'' = Some e1"
    "track_notes (tracks (entry_midi e1) ! 0) =
        map (\<lambda>n. if in_window (window_start (entry_midi song_entry) (Some 1))
                        (window_end (entry_midi song_entry) (Some 1)) n
                  then n\<lparr>ticks := of_int (js_round (ticks n /
                           of_int (js_round (ppq (header (entry_midi song_entry)) * 1))) *
                           js_round (ppq (header (entry_midi song_entry)) * 1))\<rparr>
                  else n) (track_notes song_track)"
    by blast
  from r(3) have k: "map ticks (track_notes (tracks (entry_midi e1) ! 0)) = [0, 1920, 1920, 2500, 3840]"
    unfolding song_grid by (simp add: m n w in_window_def song_notes_def s)
  from c1 r(1,2) k
  have f: "quantizeNotes song ''song'' 0 1 (Some 1) (Some 1) = (Inr r1, st1) \<and>
      quantizeNotes st1 ''song'' 0 1 (Some 1) (Some 1) = (Inr r2, st1) \<and>
      map ticks (track_notes (tracks (entry_midi (the (st1 ''song''))) ! 0)) =
        [0, 1920, 1920, 2500, 3840]"
    by simp
  show ?thesis
    by (rule exI [of _ r1], rule exI [of _ st1], rule exI [of _ r2], rule f)
qed

section \<open>Adding notes\<close>

lemma add_loop_stops:
  assumes "list_all (\<lambda>n. \<not> isl (noteNameToMidi (in_noteName n))) pre"
    and "noteNameToMidi (in_noteName bad) = Inl e"
  shows "add_loop ins m (pre @ bad # post) tn acc =
     (Inl e, foldl ins tn (map (\<lambda>n. new_note m n (projr (noteNameToMidi (in_noteName n)))) pre))"
  using assms(1)
proof (induction pre arbitrary: tn acc)
  case Nil
  then show ?case by (simp add: assms(2))
next
  case (Cons n pre)
  from Cons.prems obtain p where p: "noteNameToMidi (in_noteName n) = Inr p"
    by (cases "noteNameToMidi (in_noteName n)") auto
  from Cons.prems have "list_all (\<lambda>n. \<not> isl (noteNameToMidi (in_noteName n))) pre" by simp
  from Cons.IH [OF this] show ?case by (simp add: p)
qed

text \<open>
  C1 (as amended). When the alias and the track exist and the batch holds a first note
  whose pitch name does not decode, \<open>addNotes\<close> fails with that note's error and leaves
  the dirty flag as it was; the notes before it have been added to the track (here for
  any insertion function of the library), that note and the later ones have not.
\<close>

theorem addNotes_stops_at_first_invalid:
  assumes "loaded alias = Some entry" and "track_at (entry_midi entry) ti = Some t"
    and "list_all (\<lambda>n. \<not> isl (noteNameToMidi (in_noteName n))) pre"
    and "noteNameToMidi (in_noteName bad) = Inl e"
    and "addNotes ins loaded alias ti (pre @ bad # post) = (out, loaded')"
  shows "out = Inl e \<and>
     (\<exists>entry'. loaded' alias = Some entry' \<and> dirty entry' = dirty entry \<and>
        track_notes (tracks (entry_midi entry') ! ti) =
          foldl ins (track_notes t)
            (map (\<lambda>n. new_note (entry_midi entry) n (projr (noteNameToMidi (in_noteName n)))) pre))"
proof -
  define tn where "tn = foldl ins (track_notes t)
      (map (\<lambda>n. new_note (entry_midi entry) n (projr (noteNameToMidi (in_noteName n)))) pre)"
  from assms(2) have ti: "ti < length (tracks (entry_midi entry))" by (simp add: track_at_Some)
  have l: "add_loop ins (entry_midi entry) (pre @ bad # post) (track_notes t) [] = (Inl e, tn)"
    unfolding tn_def by (rule add_loop_stops [OF assms(3,4)])
  from assms(1,2,5) have o: "out = Inl e"
    and s: "loaded' = loaded(alias \<mapsto> entry\<lparr>entry_midi := put_notes (entry_midi entry) ti tn\<rparr>)"
    by (simp_all add: addNotes_def requireLoaded_def Let_def l)
  have "loaded' alias = Some (entry\<lparr>entry_midi := put_notes (entry_midi entry) ti tn\<rparr>) \<and>
      dirty (entry\<lparr>entry_midi := put_notes (entry_midi entry) ti tn\<rparr>) = dirty entry \<and>
      track_notes (tracks (entry_midi (entry\<lparr>entry_midi := put_notes (entry_midi entry) ti tn\<rparr>)) ! ti) = tn"
    using ti by (simp add: s)
  then show ?thesis unfolding tn_def [symmetric] using o by blast
qed

lemma song_add:
  "add_loop insert_by_ticks song_midi c4_then_h2 song_notes [] =
     (Inl (InvalidNoteName ''H2''),
      insert_by_ticks song_notes \<lparr>midi = 60, ticks = 0, durationTicks = 480, velocity = 80 / 127\<rparr>)"
proof -
  have a: "noteNameToMidi ''C4'' = Inr 60" by code_simp
  have b: "noteNameToMidi ''H2'' = Inl (InvalidNoteName ''H2'')" by code_simp
  have t: "timeSigAtTick song_midi 0 = (4, 4)" by (simp add: timeSigAtTick_def song_midi_def)
  show ?thesis
    by (simp add: c4_then_h2_def a b new_note_def input_ticks_def song_measures t Let_def)
       (simp add: song_midi_def)
qed

text \<open>
  C1 as stated fails: with \<open>C4\<close> followed by \<open>H2\<close> the call fails and the track has gained
  a note.
\<close>

theorem addNotes_partial_counterexample:
  "song ''song'' = Some song_entry \<and> track_at (entry_midi song_entry) 0 = Some song_track \<and>
   length (track_notes song_track) = 5 \<and>
   fst (addNotes insert_by_ticks song ''song'' 0 c4_then_h2) = Inl (InvalidNoteName ''H2'') \<and>
   length (track_notes (tracks (entry_midi (the (snd (addNotes insert_by_ticks song ''song'' 0 c4_then_h2) ''song''))) ! 0)) = 6"
proof -
  have m: "entry_midi song_entry = song_midi" by (simp add: song_entry_def)
  have n: "track_notes song_track = song_notes" by (simp add: song_track_def)
  have t: "track_at song_midi 0 = Some song_track" using song_track_at by (simp add: m)
  have r: "addNotes insert_by_ticks song ''song'' 0 c4_then_h2 =
      (Inl (InvalidNoteName ''H2''),
       song(''song'' \<mapsto> song_entry\<lparr>entry_midi := put_notes song_midi 0
          (insert_by_ticks song_notes \<lparr>midi = 60, ticks = 0, durationTicks = 480, velocity = 80 / 127\<rparr>)\<rparr>))"
    by (simp add: addNotes_def requireLoaded_def song_loaded m t n song_add)
  have l: "length (insert_by_ticks song_notes x) = 6" for x
    by (simp add: insert_by_ticks_def song_notes_def)
  have z: "0 < length (tracks song_midi)" by (simp add: song_midi_def)
  have g: "track_notes (tracks (put_notes song_midi 0 xs) ! 0) = xs" for xs
    using z by simp
  have f: "length song_notes = 5" by (simp add: song_notes_def)
  have h: "entry_midi (song_entry\<lparr>entry_midi := x\<rparr>) = x" for x by simp
  show ?thesis
    by (simp only: r song_loaded song_track_at n f fst_conv snd_conv fun_upd_same option.sel
          h g l simp_thms)
qed

theorem addNotes_stops_at_first_invalid_witness:
  "\<exists>st entry'. addNotes insert_by_ticks song ''song'' 0 c4_then_h2 = (Inl (InvalidNoteName ''H2''), st) \<and>
     st ''song'' = Some entry' \<and> dirty entry' = False \<and>
     map midi (track_notes (tracks (entry_midi entry') ! 0)) = [60, 60, 64, 67, 1, 120]"
proof -
  obtain out st where c: "addNotes insert_by_ticks song ''song'' 0 c4_then_h2 = (out, st)"
    by (cases "addNotes insert_by_ticks song ''song'' 0 c4_then_h2")
  have a: "noteNameToMidi ''C4'' = Inr 60" by code_simp
  have b: "noteNameToMidi ''H2'' = Inl (InvalidNoteName ''H2'')" by code_simp
  have p: "list_all (\<lambda>n. \<not> isl (noteNameToMidi (in_noteName n)))
      [\<lparr>in_measure = 1, in_beat = 1, in_noteName = ''C4'', in_velocity = None, in_durationBeats = 1\<rparr>]"
    by (simp add: a)
  have q: "noteNameToMidi (in_noteName \<lparr>in_measure = 1, in_beat = 2, in_noteName = ''H2'',
      in_velocity = None, in_durationBeats = 1\<rparr>) = Inl (InvalidNoteName ''H2'')"
    by (simp add: b)
  have i: "c4_then_h2 = [\<lparr>in_measure = 1, in_beat = 1, in_noteName = ''C4'', in_velocity = None, in_durationBeats = 1\<rparr>]
      @ \<lparr>in_measure = 1, in_beat = 2, in_noteName = ''H2'', in_velocity = None, in_durationBeats = 1\<rparr> # []"
    by (simp add: c4_then_h2_def)
  have m: "entry_midi song_entry = song_midi" by (simp add: song_entry_def)
  have n: "track_notes song_track = song_notes" by (simp add: song_track_def)
  have t: "timeSigAtTick song_midi 0 = (4, 4)" by (simp add: timeSigAtTick_def song_midi_def)
  from addNotes_stops_at_first_invalid [of song "''song''", OF song_loaded song_track_at p q c [unfolded i]]
  obtain entry' where r: "out = Inl (InvalidNoteName ''H2'')" "st ''song'' = Some entry'"
    "dirty entry' = dirty song_entry"
    "track_notes (tracks (entry_midi entry') ! 0) =
       foldl insert_by_ticks (track_notes song_track)
         (map (\<lambda>n. new_note (entry_midi song_entry) n (projr (noteNameToMidi (in_noteName n))))
            [\<lparr>in_measure = 1, in_beat = 1, in_noteName = ''C4'', in_velocity = None, in_durationBeats = 1\<rparr>])"
    by blast
  from r(4) have k: "map midi (track_notes (tracks (entry_midi entry') ! 0)) = [60, 60, 64, 67, 1, 120]"
    by (simp add: m n a new_note_def input_ticks_def song_measures t Let_def insert_by_ticks_def song_notes_def)
  from r(3) have d: "dirty entry' = False" by (simp add: song_entry_def)
  from c r(1,2) d k
  have f: "addNotes insert_by_ticks song ''song'' 0 c4_then_h2 = (Inl (InvalidNoteName ''H2''), st) \<and>
     st ''song'' = Some entry' \<and> dirty entry' = False \<and>
     map midi (track_notes (tracks (entry_midi entry') ! 0)) = [60, 60, 64, 67, 1, 120]"
    by simp
  show ?thesis by (rule exI [of _ st], rule exI [of _ entry'], rule f)
qed

section \<open>Search\<close>


lemma search_note_returns:
  assumes "tickToMeasureBeat m (ticks n) = Some pos"
  shows "search_note m opts ti n =
     Some (if matches_filters m opts n then Some (found m ti n pos) else None)"
  using assms
  by (auto simp: search_note_def matches_filters_def below_pitchMin_def above_pitchMax_def
      other_noteName_def outside_measures_def split: option.splits)

lemma search_track_returns:
  assumes "\<And>T. \<exists>pos. tickToMeasureBeat m T = Some pos"
  shows "search_track m opts ti ns acc =
     Some (acc @ map (\<lambda>n. found m ti n (the (tickToMeasureBeat m (ticks n))))
                   (filter (matches_filters m opts) ns))"
proof (induction ns arbitrary: acc)
  case Nil
  then show ?case by simp
next
  case (Cons n ns)
  from assms obtain pos where p: "tickToMeasureBeat m (ticks n) = Some pos" by blast
  show ?case by (simp add: search_note_returns [OF p] p Cons.IH)
qed

lemma search_tracks_returns:
  assumes "\<And>T. \<exists>pos. tickToMeasureBeat m T = Some pos"
  shows "search_tracks m opts ts acc =
     Some (acc @ concat (map (\<lambda>(ti, t).
         map (\<lambda>n. found m ti n (the (tickToMeasureBeat m (ticks n))))
           (filter (matches_filters m opts) (track_notes t))) ts))"
proof (induction ts arbitrary: acc)
  case Nil
  then show ?case by simp
next
  case (Cons a ts)
  obtain ti t where a: "a = (ti, t)" by (cases a)
  show ?case by (simp add: a search_track_returns [OF assms] Cons.IH)
qed

lemma searchNotes_returns:
  assumes "loaded alias = Some entry" and "sigs_positive (entry_midi entry)"
  shows "searchNotes loaded alias opts =
     Some (Inr \<lparr>s_count = length (sort_key sort_position (all_matches (entry_midi entry) opts)),
                 s_notes = take 200 (sort_key sort_position (all_matches (entry_midi entry) opts))\<rparr>)"
proof -
  define m where "m = entry_midi entry"
  have r: "\<And>T. \<exists>pos. tickToMeasureBeat m T = Some pos"
    using tmb_walk_returns [OF assms(2)] by (simp add: m_def tickToMeasureBeat_def)
  have s: "search_tracks m opts (tracksToScan m (trackIndex opts)) [] = Some (all_matches m opts)"
    by (simp add: search_tracks_returns [OF r] all_matches_def)
  show ?thesis
    using assms(1) by (simp add: searchNotes_def requireLoaded_def m_def [symmetric] s Let_def)
qed


lemma chords_loaded:
  "chords ''chords'' = Some \<lparr>entry_midi = chords_midi, filePath = None, dirty = False\<rparr>"
  by (simp add: chords_def)

lemma chords_positive:
  "sigs_positive (entry_midi \<lparr>entry_midi = chords_midi, filePath = None, dirty = False\<rparr>)"
  by (simp add: sigs_positive_def chords_midi_def)












lemma low_names:
  "list_all (\<lambda>p. strip_digits (midiToNoteName p) \<noteq> [] \<and>
                  last (strip_digits (midiToNoteName p)) = CHR ''-'')
     [0, 1, 2, 3, 4, 5, 6, 7, 8, 9, 10, 11]"
  by code_simp

lemma low_name_stripped:
  assumes "0 \<le> p" "p \<le> 11"
  shows "strip_digits (midiToNoteName p) \<noteq> [] \<and> last (strip_digits (midiToNoteName p)) = CHR ''-''"
proof -
  from assms have "p \<in> set [0, 1, 2, 3, 4, 5, 6, 7, 8, 9, 10, 11]" by simp presburger
  with low_names show ?thesis unfolding list_all_iff by blast
qed

lemma upper_char_not_minus:
  assumes "c \<noteq> CHR ''-''"
  shows "(case map_of (zip ''abcdefghijklmnopqrstuvwxyz'' ''ABCDEFGHIJKLMNOPQRSTUVWXYZ'') c of
            None \<Rightarrow> c | Some u \<Rightarrow> u) \<noteq> CHR ''-''"
proof (cases "map_of (zip ''abcdefghijklmnopqrstuvwxyz'' ''ABCDEFGHIJKLMNOPQRSTUVWXYZ'') c")
  case None
  with assms show ?thesis by simp
next
  case (Some u)
  then have "(c, u) \<in> set (zip ''abcdefghijklmnopqrstuvwxyz'' ''ABCDEFGHIJKLMNOPQRSTUVWXYZ'')"
    by (rule map_of_SomeD)
  then have "u \<in> set ''ABCDEFGHIJKLMNOPQRSTUVWXYZ''" by (rule set_zip_rightD)
  then have "u \<noteq> CHR ''-''" by auto
  with Some show ?thesis by simp
qed

lemma toUpperCase_last:
  assumes "s \<noteq> []" "last s \<noteq> CHR ''-''"
  shows "toUpperCase s \<noteq> [] \<and> last (toUpperCase s) \<noteq> CHR ''-''"
  using assms upper_char_not_minus [of "last s"]
  by (simp add: toUpperCase_def last_map)

lemma other_noteName_low:
  assumes "noteName opts = Some s" "s \<noteq> []" "last s \<noteq> CHR ''-''" "0 \<le> midi n" "midi n \<le> 11"
  shows "other_noteName opts n"
proof -
  from low_name_stripped [OF assms(4,5)] toUpperCase_last [OF assms(2,3)]
  have "strip_digits (midiToNoteName (midi n)) \<noteq> toUpperCase s" by auto
  with assms(1,2) show ?thesis by (simp add: other_noteName_def)
qed

lemma search_note_pushes:
  assumes "search_note m opts ti n = Some (Some r)"
  shows "f_midi r = midi n \<and> \<not> other_noteName opts n"
  using assms by (auto simp: search_note_def found_def split: if_splits option.splits)

lemma search_track_sources:
  assumes "search_track m opts ti ns acc = Some res" "r \<in> set res"
  shows "r \<in> set acc \<or> (\<exists>n \<in> set ns. search_note m opts ti n = Some (Some r))"
  using assms
proof (induction ns arbitrary: acc)
  case Nil
  then show ?case by simp
next
  case (Cons n ns)
  show ?case
  proof (cases "search_note m opts ti n")
    case None
    with Cons.prems show ?thesis by simp
  next
    case (Some o1)
    show ?thesis
    proof (cases o1)
      case None
      with Some Cons.prems have "search_track m opts ti ns acc = Some res" by simp
      from Cons.IH [OF this Cons.prems(2)] show ?thesis by auto
    next
      case (Some x)
      with \<open>search_note m opts ti n = Some o1\<close> Cons.prems
      have "search_track m opts ti ns (acc @ [x]) = Some res" by simp
      from Cons.IH [OF this Cons.prems(2)] Some \<open>search_note m opts ti n = Some o1\<close>
      show ?thesis by auto
    qed
  qed
qed

lemma search_tracks_sources:
  assumes "search_tracks m opts ts acc = Some res" "r \<in> set res"
  shows "r \<in> set acc \<or> (\<exists>ti n. search_note m opts ti n = Some (Some r))"
  using assms
proof (induction ts arbitrary: acc)
  case Nil
  then show ?case by simp
next
  case (Cons a ts)
  obtain ti t where a: "a = (ti, t)" by (cases a)
  from Cons.prems(1) obtain mid where
    1: "search_track m opts ti (track_notes t) acc = Some mid" and
    2: "search_tracks m opts ts mid = Some res"
    by (auto simp: a split: option.splits)
  from Cons.IH [OF 2 Cons.prems(2)] search_track_sources [OF 1] show ?case by blast
qed

text \<open>
  C10. With a pitch-class filter (any non-empty string that does not end in a minus
  sign, as every letter-and-accidental string is), \<open>searchNotes\<close> returns no note of
  pitch 0 to 11: the encoded name of such a pitch, with its digits removed, ends in
  \<open>-\<close> and differs from the upper-cased filter.
\<close>

theorem searchNotes_misses_lowest_octave:
  assumes "searchNotes loaded alias opts = Some (Inr res)"
    and "noteName opts = Some s" and "s \<noteq> []" and "last s \<noteq> CHR ''-''"
  shows "(\<forall>r \<in> set (s_notes res). \<not> (0 \<le> f_midi r \<and> f_midi r \<le> 11)) \<and>
     (\<forall>p. 0 \<le> p \<and> p \<le> 11 \<longrightarrow>
        last (strip_digits (midiToNoteName p)) = CHR ''-'' \<and>
        strip_digits (midiToNoteName p) \<noteq> toUpperCase s)"
proof (intro conjI ballI allI impI)
  fix r
  assume r: "r \<in> set (s_notes res)"
  from assms(1) obtain entry results where
    e: "loaded alias = Some entry" and
    t: "search_tracks (entry_midi entry) opts (tracksToScan (entry_midi entry) (trackIndex opts)) []
          = Some results" and
    n: "s_notes res = take 200 (sort_key sort_position results)"
    by (auto simp: searchNotes_def requireLoaded_def Let_def split: option.splits)
  from r n have "r \<in> set results" by (auto dest: in_set_takeD)
  from search_tracks_sources [OF t this] obtain ti x where
    "search_note (entry_midi entry) opts ti x = Some (Some r)" by auto
  from search_note_pushes [OF this] have p: "f_midi r = midi x" "\<not> other_noteName opts x" by simp_all
  show "\<not> (0 \<le> f_midi r \<and> f_midi r \<le> 11)"
  proof
    assume "0 \<le> f_midi r \<and> f_midi r \<le> 11"
    then have "0 \<le> midi x" "midi x \<le> 11" by (simp_all add: p(1))
    from other_noteName_low [OF assms(2,3,4) this] p(2) show False by simp
  qed
next
  fix p :: int
  assume "0 \<le> p \<and> p \<le> 11"
  then have l: "strip_digits (midiToNoteName p) \<noteq> [] \<and> last (strip_digits (midiToNoteName p)) = CHR ''-''"
    by (simp add: low_name_stripped)
  then show "last (strip_digits (midiToNoteName p)) = CHR ''-''" by simp
  from l toUpperCase_last [OF assms(3,4)]
  show "strip_digits (midiToNoteName p) \<noteq> toUpperCase s" by auto
qed

lemma chords_c_sharp: "all_matches chords_midi c_sharp_filter =
   [\<lparr>f_track = 0, f_measure = 1, f_beat = 1, f_name = ''C#4'', f_midi = 61,
     f_velocity = 80, f_durationTicks = 480\<rparr>]"
  by code_simp

theorem searchNotes_misses_lowest_octave_witness:
  "noteName c_sharp_filter = Some ''c#'' \<and> last ''c#'' \<noteq> CHR ''-'' \<and>
   midi (unordered_notes ! 2) = 1 \<and> midiToNoteName 1 = ''C#-1'' \<and>
   (\<exists>res. searchNotes chords ''chords'' c_sharp_filter = Some (Inr res) \<and>
      map f_name (s_notes res) = [''C#4''] \<and>
      list_all (\<lambda>r. \<not> (0 \<le> f_midi r \<and> f_midi r \<le> 11)) (s_notes res))"
proof -
  have f: "noteName c_sharp_filter = Some ''c#''" by (simp add: c_sharp_filter_def no_filter_def)
  have ne: "''c#'' \<noteq> []" and la: "last ''c#'' \<noteq> CHR ''-''" by simp_all
  have u: "midi (unordered_notes ! 2) = 1" by (simp add: unordered_notes_def)
  have nm: "midiToNoteName 1 = ''C#-1''" by code_simp
  have m: "entry_midi \<lparr>entry_midi = chords_midi, filePath = None, dirty = False\<rparr> = chords_midi"
    by simp
  define res where "res = \<lparr>s_count = length (sort_key sort_position (all_matches chords_midi c_sharp_filter)),
      s_notes = take 200 (sort_key sort_position (all_matches chords_midi c_sharp_filter))\<rparr>"
  have e: "searchNotes chords ''chords'' c_sharp_filter = Some (Inr res)"
    using searchNotes_returns [of chords "''chords''", OF chords_loaded chords_positive, of c_sharp_filter]
    by (simp only: m res_def)
  have k: "map f_name (s_notes res) = [''C#4'']"
    by (simp add: res_def chords_c_sharp)
  from searchNotes_misses_lowest_octave [OF e f ne la]
  have "\<forall>r \<in> set (s_notes res). \<not> (0 \<le> f_midi r \<and> f_midi r \<le> 11)" by (rule conjunct1)
  then have "list_all (\<lambda>r. \<not> (0 \<le> f_midi r \<and> f_midi r \<le> 11)) (s_notes res)"
    by (simp only: list_all_iff)
  with e k have "searchNotes chords ''chords'' c_sharp_filter = Some (Inr res) \<and>
      map f_name (s_notes res) = [''C#4''] \<and>
      list_all (\<lambda>r. \<not> (0 \<le> f_midi r \<and> f_midi r \<le> 11)) (s_notes res)" by simp
  then have "\<exists>res. searchNotes chords ''chords'' c_sharp_filter = Some (Inr res) \<and>
      map f_name (s_notes res) = [''C#4''] \<and>
      list_all (\<lambda>r. \<not> (0 \<le> f_midi r \<and> f_midi r \<le> 11)) (s_notes res)" by (rule exI [of _ res])
  with f la u nm show ?thesis by simp
qed

end
